theory Spec2Isabelle
  imports Complex_Main
begin

section \<open>Numbers and the Math object\<close>

text \<open>
  A JavaScript number is modelled as a real: arithmetic is exact, and the values NaN and
  the infinities have no counterpart. Where the source divides, takes a square root or an
  arc sine, the lemmas below say for which arguments the real function is the one the
  source computes. A quotient by 0 is 0 in HOL: that is the value the model has where the
  source would divide by an exact zero. \<open>Math.sin\<close>, \<open>Math.cos\<close>, \<open>Math.tan\<close>, \<open>Math.asin\<close>, \<open>Math.acos\<close>,
  \<open>Math.sqrt\<close>, \<open>Math.abs\<close>, \<open>Math.max\<close> and \<open>Math.min\<close> are \<^const>\<open>sin\<close>, \<^const>\<open>cos\<close>,
  \<^const>\<open>tan\<close>, \<^const>\<open>arcsin\<close>, \<^const>\<open>arccos\<close>, \<^const>\<open>sqrt\<close>, \<^const>\<open>abs\<close>, \<^const>\<open>max\<close> and
  \<^const>\<open>min\<close>.
\<close>

text \<open>\<open>Math.atan2(y, x)\<close>: the angle of the point \<open>(x, y)\<close>, in \<open>(-pi, pi]\<close>, and 0 at the origin.\<close>

definition atan2 :: "real \<Rightarrow> real \<Rightarrow> real" where
  "atan2 y x =
     (if 0 < x then arctan (y / x)
      else if x < 0 then (if 0 \<le> y then arctan (y / x) + pi else arctan (y / x) - pi)
      else if 0 < y then pi / 2
      else if y < 0 then - (pi / 2)
      else 0)"

text \<open>Truncation towards zero, as \<open>ToIntegerOrInfinity\<close> does it.\<close>

definition trunc :: "real \<Rightarrow> int" where
  "trunc x = (if 0 \<le> x then \<lfloor>x\<rfloor> else \<lceil>x\<rceil>)"

text \<open>The remainder operator \<open>x % y\<close> on numbers: the result has the sign of \<open>x\<close>.\<close>

definition js_rem :: "real \<Rightarrow> real \<Rightarrow> real" where
  "js_rem x y = x - y * of_int (trunc (x / y))"

section \<open>Types (types/index.ts)\<close>

text \<open>
  The object \<open>{lat, lon}\<close> is the common part of waypoints, airports, timeline points and
  sun events, which extend it. Each record is declared where the source first uses it. A
  field whose name another record already has carries a suffix, and a parameter or local
  variable of the source whose name is a field carries a prime.
\<close>

record LatLon =
  lat :: real
  lon :: real

record Airport = LatLon +
  iata :: string
  name :: string
  city :: string
  country :: string
  timezone :: string

text \<open>A position with its distance from the origin in km: what waypoints and timeline points share.\<close>

record Located = LatLon +
  distance :: real

record Waypoint = Located +
  bearing :: real

section \<open>Great circle routes (utils/geodesic.ts)\<close>

definition EARTH_RADIUS_KM :: real where
  "EARTH_RADIUS_KM = 6371"

definition toRadians :: "real \<Rightarrow> real" where
  "toRadians degrees = degrees * pi / 180"

definition toDegrees :: "real \<Rightarrow> real" where
  "toDegrees radians = radians * 180 / pi"

text \<open>
  The haversine term \<open>a\<close> of \<open>calculateDistance\<close> is at most 1 in exact arithmetic. In the
  doubles of the source it can round to a value above 1 when the two points are antipodal
  or nearly so; \<open>Math.sqrt(1 - a)\<close> is then NaN, and so are the distance and all that is
  computed from it. The model has no such value. The statements about the endpoints of a
  route and about the timestamps of a timeline are therefore made for distances of at
  most 20000 km, where the term stays below 1 by more than a millionth.
\<close>

definition calculateDistance :: "real \<Rightarrow> real \<Rightarrow> real \<Rightarrow> real \<Rightarrow> real" where
  "calculateDistance lat1 lon1 lat2 lon2 =
     (let \<phi>1 = toRadians lat1;
          \<phi>2 = toRadians lat2;
          d\<phi> = toRadians (lat2 - lat1);
          dl = toRadians (lon2 - lon1);
          a = sin (d\<phi> / 2) * sin (d\<phi> / 2) + cos \<phi>1 * cos \<phi>2 * sin (dl / 2) * sin (dl / 2);
          c = 2 * atan2 (sqrt a) (sqrt (1 - a))
      in EARTH_RADIUS_KM * c)"

definition calculateInitialBearing :: "real \<Rightarrow> real \<Rightarrow> real \<Rightarrow> real \<Rightarrow> real" where
  "calculateInitialBearing lat1 lon1 lat2 lon2 =
     (let \<phi>1 = toRadians lat1;
          \<phi>2 = toRadians lat2;
          dl = toRadians (lon2 - lon1);
          y = sin dl * cos \<phi>2;
          x = cos \<phi>1 * sin \<phi>2 - sin \<phi>1 * cos \<phi>2 * cos dl;
          \<theta> = atan2 y x
      in js_rem (toDegrees \<theta> + 360) 360)"

text \<open>
  In the second branch of \<open>intermediatePoint\<close> the angular distance is at least 0.00001. It
  reaches \<open>pi\<close> for antipodal points only: there the exact sine is 0 and the quotients of
  the model are 0, while the source divides by the double nearest to \<open>sin pi\<close>, about
  \<open>1.2e-16\<close>, or carries a NaN distance along. What the model says of antipodal pairs is
  not what the source does.
\<close>

definition intermediatePoint :: "LatLon \<Rightarrow> LatLon \<Rightarrow> real \<Rightarrow> LatLon" where
  "intermediatePoint p1 p2 fraction =
     (let \<phi>1 = toRadians (lat p1);
          l1 = toRadians (lon p1);
          \<phi>2 = toRadians (lat p2);
          l2 = toRadians (lon p2);
          dist = calculateDistance (lat p1) (lon p1) (lat p2) (lon p2);
          \<delta> = dist / EARTH_RADIUS_KM
      in if \<delta> < 0.00001 then \<lparr>lat = lat p1, lon = lon p1\<rparr>
         else
           let a = sin ((1 - fraction) * \<delta>) / sin \<delta>;
               b = sin (fraction * \<delta>) / sin \<delta>;
               x = a * cos \<phi>1 * cos l1 + b * cos \<phi>2 * cos l2;
               y = a * cos \<phi>1 * sin l1 + b * cos \<phi>2 * sin l2;
               z = a * sin \<phi>1 + b * sin \<phi>2;
               \<phi>i = atan2 z (sqrt (x * x + y * y));
               li = atan2 y x
           in \<lparr>lat = toDegrees \<phi>i, lon = toDegrees li\<rparr>)"

text \<open>
  \<open>handleAntimeridianCrossing\<close> walks the array from index 1 and rewrites the longitude of
  element \<open>i\<close> in place, comparing it with element \<open>i - 1\<close> as already rewritten. The
  waypoints of \<open>generateWaypoints\<close> are distinct objects, so the array is a list of values.
\<close>

function antimeridianLoop :: "nat \<Rightarrow> Waypoint list \<Rightarrow> Waypoint list" where
  "antimeridianLoop i waypoints =
     (if 1 \<le> i \<and> i < length waypoints then
        let diff = lon (waypoints ! i) - lon (waypoints ! (i - 1))
        in if diff > 180 then
             antimeridianLoop (i + 1)
               (waypoints[i := (waypoints ! i)\<lparr>lon := lon (waypoints ! i) - 360\<rparr>])
           else if diff < - 180 then
             antimeridianLoop (i + 1)
               (waypoints[i := (waypoints ! i)\<lparr>lon := lon (waypoints ! i) + 360\<rparr>])
           else antimeridianLoop (i + 1) waypoints
      else waypoints)"
  by pat_completeness auto
termination
  by (relation "measure (\<lambda>(i, waypoints). length waypoints - i)") auto

definition handleAntimeridianCrossing :: "Waypoint list \<Rightarrow> Waypoint list" where
  "handleAntimeridianCrossing waypoints = antimeridianLoop 1 waypoints"

text \<open>
  \<open>generateWaypoints\<close>: the loop over \<open>i = 0 .. numPoints\<close> pushes one waypoint per round.
  The last round reads \<open>waypoints[i - 1].bearing\<close>; with \<open>numPoints = 0\<close> that element does
  not exist and the source throws a TypeError, which is \<open>None\<close> here. The point count is a
  natural number.
\<close>

function generateLoop ::
    "LatLon \<Rightarrow> LatLon \<Rightarrow> nat \<Rightarrow> real \<Rightarrow> nat \<Rightarrow> Waypoint list \<Rightarrow> Waypoint list option" where
  "generateLoop origin destination numPoints totalDistance i waypoints =
     (if i \<le> numPoints then
        let fraction = real i / real numPoints;
            point = intermediatePoint origin destination fraction
        in if i < numPoints then
             let nextPoint = intermediatePoint origin destination (real (i + 1) / real numPoints);
                 b = calculateInitialBearing (lat point) (lon point) (lat nextPoint) (lon nextPoint)
             in generateLoop origin destination numPoints totalDistance (i + 1)
                  (waypoints @ [\<lparr>lat = lat point, lon = lon point,
                                 distance = totalDistance * fraction, bearing = b\<rparr>])
           else if 1 \<le> i \<and> i - 1 < length waypoints then
             generateLoop origin destination numPoints totalDistance (i + 1)
               (waypoints @ [\<lparr>lat = lat point, lon = lon point,
                              distance = totalDistance * fraction,
                              bearing = bearing (waypoints ! (i - 1))\<rparr>])
           else None
      else Some waypoints)"
  by pat_completeness auto
termination
  by (relation "measure (\<lambda>(origin, destination, numPoints, totalDistance, i, waypoints).
        Suc numPoints - i)") auto

definition generateWaypoints :: "LatLon \<Rightarrow> LatLon \<Rightarrow> nat \<Rightarrow> Waypoint list option" where
  "generateWaypoints origin destination numPoints =
     (let totalDistance = calculateDistance (lat origin) (lon origin)
                            (lat destination) (lon destination)
      in map_option handleAntimeridianCrossing
           (generateLoop origin destination numPoints totalDistance 0 []))"

section \<open>Which side of the aircraft faces the sun (utils/aircraft.ts)\<close>

datatype AircraftSide = LEFT | RIGHT | OVERHEAD | NONE

record AircraftSunExposure =
  side :: AircraftSide
  relativeBearing :: real
  sunAngle :: real
  intensity :: real
  recommendation :: string

text \<open>
  The relative bearing is assigned once and then adjusted by two statements that run one
  after the other (\<open>r0\<close>, \<open>r1\<close>, \<open>relBearing\<close> are the three values of the variable).
\<close>

definition calculateAircraftSunExposure :: "real \<Rightarrow> real \<Rightarrow> real \<Rightarrow> AircraftSunExposure" where
  "calculateAircraftSunExposure aircraftHeading sunAzimuth sunAltitude =
     (let r0 = sunAzimuth - aircraftHeading;
          r1 = (if r0 > 180 then r0 - 360 else r0);
          relBearing = (if r1 < - 180 then r1 + 360 else r1);
          directness = \<bar>\<bar>relBearing\<bar> - 90\<bar> / 90;
          altitudeFactor = sin (toRadians sunAltitude);
          intens = (if sunAltitude > 0 then (1 - directness) * altitudeFactor else 0);
          (sd, rec) =
            (if sunAltitude < - 6 then
               (NONE, ''Nighttime flight - ideal for rest or stargazing from either side'')
             else if sunAltitude \<ge> - 6 \<and> sunAltitude < 0 then
               (let isSunrise = sunAltitude > - 3
                in if relBearing > 0 then
                     (NONE, if isSunrise
                        then ''Sunrise approaching on RIGHT side - perfect for golden hour photography!''
                        else ''Sunset colors visible on RIGHT side - grab your camera!'')
                   else
                     (NONE, if isSunrise
                        then ''Sunrise approaching on LEFT side - perfect for golden hour photography!''
                        else ''Sunset colors visible on LEFT side - grab your camera!''))
             else if sunAltitude > 70 then
               (OVERHEAD, ''Tropical route - sun overhead, both sides have similar lighting for cloud photography'')
             else if relBearing \<ge> - 30 \<and> relBearing \<le> 30 then
               (NONE, if sunAltitude < 15
                  then ''Low sun ahead - beautiful atmospheric views from either side''
                  else ''Sun ahead - balanced lighting on both sides'')
             else if relBearing \<ge> 150 \<or> relBearing \<le> - 150 then
               (NONE, ''Sun behind - great lighting for forward views, either side works well'')
             else if relBearing > 0 then
               (let angle = \<bar>relBearing - 90\<bar>
                in (RIGHT,
                    if intens > 0.7 \<and> angle < 30 then
                      ''Intense sun on RIGHT - choose LEFT side if you need to rest or work on screen''
                    else if sunAltitude < 20 then
                      ''RIGHT side has beautiful low-angle sunlight - great for aerial photography!''
                    else if intens > 0.5 then
                      ''RIGHT side has good natural light - ideal for sightseeing and photos''
                    else ''Gentle sunlight on RIGHT side - comfortable viewing conditions''))
             else
               (let angle = \<bar>relBearing + 90\<bar>
                in (LEFT,
                    if intens > 0.7 \<and> angle < 30 then
                      ''Intense sun on LEFT - choose RIGHT side if you need to rest or work on screen''
                    else if sunAltitude < 20 then
                      ''LEFT side has beautiful low-angle sunlight - great for aerial photography!''
                    else if intens > 0.5 then
                      ''LEFT side has good natural light - ideal for sightseeing and photos''
                    else ''Gentle sunlight on LEFT side - comfortable viewing conditions'')))
      in \<lparr>side = sd, relativeBearing = relBearing, sunAngle = \<bar>relBearing\<bar>,
          intensity = intens, recommendation = rec\<rparr>)"

section \<open>Dates\<close>

text \<open>
  A \<open>Date\<close> is its time value: milliseconds since the epoch, an integer. Invalid dates are
  left out. The UTC getters and setters follow the abstract operations of the language
  standard (\<open>Day\<close>, \<open>HourFromTime\<close>, \<open>MakeTime\<close>, \<open>MakeDate\<close>); the year, month and day of
  month of a day number are those of the proleptic Gregorian calendar.
\<close>

type_synonym Date = int

definition msPerDay :: int where
  "msPerDay = 86400000"

definition Day :: "Date \<Rightarrow> int" where
  "Day t = t div msPerDay"

definition HourFromTime :: "Date \<Rightarrow> int" where
  "HourFromTime t = (t div 3600000) mod 24"

definition MinFromTime :: "Date \<Rightarrow> int" where
  "MinFromTime t = (t div 60000) mod 60"

definition SecFromTime :: "Date \<Rightarrow> int" where
  "SecFromTime t = (t div 1000) mod 60"

definition msFromTime :: "Date \<Rightarrow> int" where
  "msFromTime t = t mod 1000"

definition MakeTime :: "int \<Rightarrow> int \<Rightarrow> int \<Rightarrow> int \<Rightarrow> int" where
  "MakeTime h m s milli = h * 3600000 + m * 60000 + s * 1000 + milli"

definition MakeDate :: "int \<Rightarrow> int \<Rightarrow> Date" where
  "MakeDate d time = d * msPerDay + time"

text \<open>Year, month (1 to 12) and day of month of a day number counted from 1970-01-01.\<close>

definition civilFromDays :: "int \<Rightarrow> int \<times> int \<times> int" where
  "civilFromDays days =
     (let z = days + 719468;
          era = z div 146097;
          doe = z - era * 146097;
          yoe = (doe - doe div 1460 + doe div 36524 - doe div 146096) div 365;
          y = yoe + era * 400;
          doy = doe - (365 * yoe + yoe div 4 - yoe div 100);
          mp = (5 * doy + 2) div 153;
          d = doy - (153 * mp + 2) div 5 + 1;
          m = (if mp < 10 then mp + 3 else mp - 9)
      in (if m \<le> 2 then y + 1 else y, m, d))"

definition getUTCFullYear :: "Date \<Rightarrow> int" where
  "getUTCFullYear t = fst (civilFromDays (Day t))"

definition getUTCMonth :: "Date \<Rightarrow> int" where
  "getUTCMonth t = fst (snd (civilFromDays (Day t))) - 1"

definition getUTCDate :: "Date \<Rightarrow> int" where
  "getUTCDate t = snd (snd (civilFromDays (Day t)))"

definition getUTCHours :: "Date \<Rightarrow> int" where
  "getUTCHours t = HourFromTime t"

definition getUTCMinutes :: "Date \<Rightarrow> int" where
  "getUTCMinutes t = MinFromTime t"

definition getUTCSeconds :: "Date \<Rightarrow> int" where
  "getUTCSeconds t = SecFromTime t"

text \<open>The setters take a number and truncate it; the fields not given keep their values.\<close>

definition setUTCHours :: "real \<Rightarrow> Date \<Rightarrow> Date" where
  "setUTCHours h t =
     MakeDate (Day t) (MakeTime (trunc h) (MinFromTime t) (SecFromTime t) (msFromTime t))"

definition setUTCHours4 :: "real \<Rightarrow> real \<Rightarrow> real \<Rightarrow> real \<Rightarrow> Date \<Rightarrow> Date" where
  "setUTCHours4 h m s milli t =
     MakeDate (Day t) (MakeTime (trunc h) (trunc m) (trunc s) (trunc milli))"

definition setUTCMinutes :: "real \<Rightarrow> Date \<Rightarrow> Date" where
  "setUTCMinutes m t =
     MakeDate (Day t) (MakeTime (HourFromTime t) (trunc m) (SecFromTime t) (msFromTime t))"

definition setUTCSeconds :: "real \<Rightarrow> Date \<Rightarrow> Date" where
  "setUTCSeconds s t =
     MakeDate (Day t) (MakeTime (HourFromTime t) (MinFromTime t) (trunc s) (msFromTime t))"

definition setUTCMilliseconds :: "real \<Rightarrow> Date \<Rightarrow> Date" where
  "setUTCMilliseconds milli t =
     MakeDate (Day t) (MakeTime (HourFromTime t) (MinFromTime t) (SecFromTime t) (trunc milli))"

text \<open>\<open>new Date(x)\<close> for a number \<open>x\<close> truncates it to whole milliseconds.\<close>

definition newDate :: "real \<Rightarrow> Date" where
  "newDate x = trunc x"

section \<open>Solar position (utils/solar.ts)\<close>

record SolarCoordinates =
  rightAscension :: real
  declination :: real

record SunPosition = SolarCoordinates +
  azimuth :: real
  altitude :: real
  zenith :: real
  distanceAU :: real

definition sinDeg :: "real \<Rightarrow> real" where
  "sinDeg degrees = sin (toRadians degrees)"

definition cosDeg :: "real \<Rightarrow> real" where
  "cosDeg degrees = cos (toRadians degrees)"

definition tanDeg :: "real \<Rightarrow> real" where
  "tanDeg degrees = tan (toRadians degrees)"

definition asinDeg :: "real \<Rightarrow> real" where
  "asinDeg x = toDegrees (arcsin x)"

definition acosDeg :: "real \<Rightarrow> real" where
  "acosDeg x = toDegrees (arccos x)"

definition atan2Deg :: "real \<Rightarrow> real \<Rightarrow> real" where
  "atan2Deg y x = toDegrees (atan2 y x)"

definition getJulianDay :: "Date \<Rightarrow> real" where
  "getJulianDay date =
     (let year = getUTCFullYear date;
          month = getUTCMonth date + 1;
          day = getUTCDate date;
          hour = getUTCHours date;
          minute = getUTCMinutes date;
          second = getUTCSeconds date;
          a = (14 - month) div 12;
          y = year + 4800 - a;
          m = month + 12 * a - 3;
          jdn = day + (153 * m + 2) div 5 + 365 * y + y div 4 - y div 100 + y div 400 - 32045;
          fraction = (of_int hour - 12) / 24 + of_int minute / 1440 + of_int second / 86400
      in of_int jdn + fraction)"

definition getJulianCentury :: "real \<Rightarrow> real" where
  "getJulianCentury jd = (jd - 2451545.0) / 36525.0"

definition getSolarCoordinates :: "real \<Rightarrow> SolarCoordinates" where
  "getSolarCoordinates jd =
     (let T = getJulianCentury jd;
          L0 = js_rem (280.46646 + T * (36000.76983 + T * 0.0003032)) 360;
          M = js_rem (357.52911 + T * (35999.05029 - T * 0.0001537)) 360;
          C = (1.914602 - T * (0.004817 + T * 0.000014)) * sinDeg M
              + (0.019993 - T * 0.000101) * sinDeg (2 * M)
              + 0.000289 * sinDeg (3 * M);
          sunLongitude = L0 + C;
          omega = 125.04 - 1934.136 * T;
          lambda = sunLongitude - 0.00569 - 0.00478 * sinDeg omega;
          epsilon0 = 23.439291 - T * (0.0130042 + T * (0.00000016 - T * 0.000000504));
          epsilon = epsilon0 + 0.00256 * cosDeg omega;
          rightAscension' = atan2Deg (cosDeg epsilon * sinDeg lambda) (cosDeg lambda);
          declination' = asinDeg (sinDeg epsilon * sinDeg lambda)
      in \<lparr>rightAscension = js_rem (rightAscension' + 360) 360 / 15,
          declination = declination'\<rparr>)"

definition getRefractionCorrection :: "real \<Rightarrow> real" where
  "getRefractionCorrection altitude' =
     (if altitude' > 85 then 0
      else if altitude' > 5 then
        (let tanAlt = tanDeg altitude'
         in (58.1 / tanAlt - 0.07 / tanAlt ^ 3 + 0.000086 / tanAlt ^ 5) / 3600)
      else if altitude' > - 0.575 then
        (1735 + altitude' * (- 518.2 + altitude' * (103.4 + altitude' * (- 12.79 + altitude' * 0.711))))
          / 3600
      else - 20.774 / tanDeg altitude' / 3600)"

text \<open>
  \<open>sinAlt\<close> goes to the arc sine as it is computed, \<open>cosAz\<close> is clamped into \<open>[-1, 1]\<close>
  first, as in the source. The exact \<open>sinAlt\<close> lies in \<open>[-1, 1]\<close>; the double of the source
  can exceed 1 by one unit in the last place when the sun stands at the zenith, and
  \<open>Math.asin\<close> is then NaN. At the poles the exact divisor of \<open>cosAz\<close> is 0 and the quotient
  of the model is 0, while the source divides by a double of about \<open>6e-17\<close>: the azimuth of
  the model is not that of the source there. The altitude does not depend on it.
\<close>

definition calculateSunPosition :: "real \<Rightarrow> real \<Rightarrow> Date \<Rightarrow> SunPosition" where
  "calculateSunPosition lat' lon' date =
     (let jd = getJulianDay date;
          coords = getSolarCoordinates jd;
          T = getJulianCentury jd;
          gmst = js_rem (280.46061837 + 360.98564736629 * (jd - 2451545.0)
                   + T * T * (0.000387933 - T / 38710000)) 360;
          lst = js_rem (gmst + lon' + 360) 360;
          hourAngle = lst - rightAscension coords * 15;
          latRad = toRadians lat';
          haRad = toRadians hourAngle;
          decRad = toRadians (declination coords);
          sinAlt = sin latRad * sin decRad + cos latRad * cos decRad * cos haRad;
          altitude' = toDegrees (arcsin sinAlt);
          cosAz = (sin decRad - sin latRad * sinAlt) / (cos latRad * cos (arcsin sinAlt));
          azimuth0 = toDegrees (arccos (max (- 1) (min 1 cosAz)));
          azimuth' = (if sin haRad > 0 then 360 - azimuth0 else azimuth0);
          altitudeRefracted = altitude' + getRefractionCorrection altitude';
          zenith' = 90 - altitudeRefracted
      in \<lparr>rightAscension = rightAscension coords,
          declination = declination coords,
          azimuth = js_rem (azimuth' + 360) 360,
          altitude = altitudeRefracted,
          zenith = zenith',
          distanceAU = 1.0\<rparr>)"

section \<open>Sunrise, sunset and twilight (utils/daylight.ts)\<close>

record DaylightInfo =
  sunriseTime :: "Date option"
  sunsetTime :: "Date option"
  solarNoon :: Date
  solarMidnight :: Date
  civilTwilightStart :: "Date option"
  civilTwilightEnd :: "Date option"
  dayLength :: real
  nightLength :: real
  isAlwaysDay :: bool
  isAlwaysNight :: bool

definition CIVIL :: real where
  "CIVIL = - 6"

definition SUNRISE_SUNSET_ALTITUDE :: real where
  "SUNRISE_SUNSET_ALTITUDE = - 0.833"

definition calculateSolarNoon :: "real \<Rightarrow> real \<Rightarrow> Date \<Rightarrow> Date" where
  "calculateSolarNoon lat' lon' date =
     (let jd = getJulianDay date;
          T = getJulianCentury jd;
          solarNoonApprox = 12 - lon' / 15;
          M = js_rem (357.52911 + T * (35999.05029 - T * 0.0001537)) 360;
          eot = 229.18 * (0.000075
                  + 0.001868 * cosDeg M
                  - 0.032077 * sinDeg M
                  - 0.014615 * cosDeg (2 * M)
                  - 0.040849 * sinDeg (2 * M));
          solarNoonCorrected = solarNoonApprox + eot / 60;
          noonDate0 = date;
          noonDate1 = setUTCHours (of_int \<lfloor>solarNoonCorrected\<rfloor>) noonDate0;
          noonDate2 = setUTCMinutes (js_rem solarNoonCorrected 1 * 60) noonDate1;
          noonDate3 = setUTCSeconds 0 noonDate2;
          noonDate4 = setUTCMilliseconds 0 noonDate3
      in noonDate4)"

definition calculateSolarMidnight :: "real \<Rightarrow> real \<Rightarrow> Date \<Rightarrow> Date" where
  "calculateSolarMidnight lat' lon' date =
     (let noon = calculateSolarNoon lat' lon' date
      in newDate (of_int noon + 12 * 3600 * 1000))"

datatype Direction = Rise | Set

definition MAX_ITERATIONS :: nat where
  "MAX_ITERATIONS = 20"

definition PRECISION_MS :: int where
  "PRECISION_MS = 10000"

text \<open>
  The bisection loop of \<open>findSunEvent\<close>. Its state is the round counter \<open>i\<close> and the two
  ends of the window; the function returns the state in which the loop ends, by the
  \<open>break\<close> or by the counter.
\<close>

function bisectLoop ::
    "real \<Rightarrow> real \<Rightarrow> real \<Rightarrow> Direction \<Rightarrow> nat \<Rightarrow> Date \<Rightarrow> Date \<Rightarrow> nat \<times> Date \<times> Date" where
  "bisectLoop lat' lon' targetAltitude direction i low high =
     (if i < MAX_ITERATIONS then
        if high - low < PRECISION_MS then (i, low, high)
        else
          let mid = newDate ((of_int low + of_int high) / 2);
              sunPos = calculateSunPosition lat' lon' mid
          in if direction = Rise then
               if altitude sunPos < targetAltitude
                 then bisectLoop lat' lon' targetAltitude direction (i + 1) mid high
                 else bisectLoop lat' lon' targetAltitude direction (i + 1) low mid
             else
               if altitude sunPos > targetAltitude
                 then bisectLoop lat' lon' targetAltitude direction (i + 1) mid high
                 else bisectLoop lat' lon' targetAltitude direction (i + 1) low mid
      else (i, low, high))"
  by pat_completeness auto
termination
  by (relation "measure (\<lambda>(lat', lon', targetAltitude, direction, i, low, high).
        MAX_ITERATIONS - i)") auto

text \<open>The window the search starts from.\<close>

definition searchWindow :: "Date \<Rightarrow> Date \<Rightarrow> Direction \<Rightarrow> Date \<times> Date" where
  "searchWindow date solarNoon' direction =
     (if direction = Rise then (setUTCHours4 0 0 0 0 date, solarNoon')
      else (solarNoon', setUTCHours4 23 59 59 999 date))"

definition findSunEvent ::
    "real \<Rightarrow> real \<Rightarrow> Date \<Rightarrow> Date \<Rightarrow> real \<Rightarrow> Direction \<Rightarrow> Date option" where
  "findSunEvent lat' lon' date solarNoon' targetAltitude direction =
     (let (low, high) = searchWindow date solarNoon' direction;
          (i, low', high') = bisectLoop lat' lon' targetAltitude direction 0 low high
      in Some high')"

definition calculateDaylightInfo :: "real \<Rightarrow> real \<Rightarrow> Date \<Rightarrow> DaylightInfo" where
  "calculateDaylightInfo lat' lon' date =
     (let solarNoon' = calculateSolarNoon lat' lon' date;
          solarMidnight' = calculateSolarMidnight lat' lon' date;
          noonSun = calculateSunPosition lat' lon' solarNoon';
          midnightSun = calculateSunPosition lat' lon' solarMidnight';
          isAlwaysDay' = altitude midnightSun > SUNRISE_SUNSET_ALTITUDE;
          isAlwaysNight' = altitude noonSun < SUNRISE_SUNSET_ALTITUDE;
          calc = \<not> isAlwaysDay' \<and> \<not> isAlwaysNight';
          sunrise' = (if calc
            then findSunEvent lat' lon' date solarNoon' SUNRISE_SUNSET_ALTITUDE Rise else None);
          sunset' = (if calc
            then findSunEvent lat' lon' date solarNoon' SUNRISE_SUNSET_ALTITUDE Set else None);
          civilTwilightStart' = (if calc
            then findSunEvent lat' lon' date solarNoon' CIVIL Rise else None);
          civilTwilightEnd' = (if calc
            then findSunEvent lat' lon' date solarNoon' CIVIL Set else None);
          dayLength' =
            (if isAlwaysDay' then 24
             else if isAlwaysNight' then 0
             else (case (sunrise', sunset') of
                     (Some sr, Some ss) \<Rightarrow> (of_int ss - of_int sr) / 3600000
                   | _ \<Rightarrow> 0))
      in \<lparr>sunriseTime = sunrise', sunsetTime = sunset',
          solarNoon = solarNoon', solarMidnight = solarMidnight',
          civilTwilightStart = civilTwilightStart', civilTwilightEnd = civilTwilightEnd',
          dayLength = dayLength', nightLength = 24 - dayLength',
          isAlwaysDay = isAlwaysDay', isAlwaysNight = isAlwaysNight'\<rparr>)"

section \<open>The flight timeline (utils/timeline.ts)\<close>

record TimelinePoint = Located +
  timestamp :: Date
  elapsedMinutes :: real
  sunAzimuth :: real
  sunAltitude :: real
  sunZenith :: real
  isDaylight :: bool
  heading :: real
  speed :: real
  altitudeFt :: real

datatype SunEventType = sunrise | sunset

text \<open>The description of a sun event is formatted text and is left out.\<close>

record SunEvent = LatLon +
  eventType :: SunEventType
  eventTimestamp :: Date
  pointIndex :: nat

record TimelineStatistics =
  daylightMinutes :: real
  darknessMinutes :: real
  daylightPercentage :: real
  averageSunAltitude :: real
  maxSunAltitude :: real
  minSunAltitude :: real

record FlightTimeline =
  points :: "TimelinePoint list"
  origin :: Airport
  destination :: Airport
  totalDistance :: real
  totalDuration :: real
  sunEvents :: "SunEvent list"
  statistics :: TimelineStatistics

text \<open>The options object; a field left out takes its default.\<close>

record TimelineOptions =
  numPoints :: "nat option"
  cruisingSpeed :: "real option"
  cruisingAltitude :: "real option"





section \<open>Sun exposure over a flight (utils/aircraft.ts)\<close>





section \<open>Notions used in the statements\<close>

text \<open>One round leaves a waypoint alone or moves its longitude by 360, and nothing else.\<close>

definition lonShifted :: "Waypoint \<Rightarrow> Waypoint \<Rightarrow> bool" where
  "lonShifted w w' \<longleftrightarrow>
     lat w' = lat w \<and> distance w' = distance w \<and> bearing w' = bearing w \<and>
     (lon w' = lon w - 360 \<or> lon w' = lon w \<or> lon w' = lon w + 360)"



definition rawWaypoint :: "LatLon \<Rightarrow> LatLon \<Rightarrow> nat \<Rightarrow> real \<Rightarrow> nat \<Rightarrow> Waypoint" where
  "rawWaypoint orig dest n tot i =
     (let fraction = real i / real n;
          point = intermediatePoint orig dest fraction;
          nextPoint = intermediatePoint orig dest (real (i + 1) / real n)
      in \<lparr>lat = lat point, lon = lon point, distance = tot * fraction,
          bearing = calculateInitialBearing (lat point) (lon point) (lat nextPoint) (lon nextPoint)\<rparr>)"

definition rawWaypoints :: "LatLon \<Rightarrow> LatLon \<Rightarrow> nat \<Rightarrow> real \<Rightarrow> Waypoint list" where
  "rawWaypoints orig dest n tot =
     map (rawWaypoint orig dest n tot) [0..<n] @
       [(rawWaypoint orig dest n tot n)\<lparr>bearing := bearing (rawWaypoint orig dest n tot (n - 1))\<rparr>]"

text \<open>The haversine term \<open>a\<close> of \<open>calculateDistance\<close>.\<close>

definition haversine :: "real \<Rightarrow> real \<Rightarrow> real \<Rightarrow> real \<Rightarrow> real" where
  "haversine lat1 lon1 lat2 lon2 =
     sin (toRadians (lat2 - lat1) / 2) * sin (toRadians (lat2 - lat1) / 2)
       + cos (toRadians lat1) * cos (toRadians lat2)
         * sin (toRadians (lon2 - lon1) / 2) * sin (toRadians (lon2 - lon1) / 2)"

text \<open>The angular distance \<open>\<delta>\<close> that \<open>intermediatePoint\<close> computes.\<close>

definition angularDistance :: "LatLon \<Rightarrow> LatLon \<Rightarrow> real" where
  "angularDistance p1 p2 =
     calculateDistance (lat p1) (lon p1) (lat p2) (lon p2) / EARTH_RADIUS_KM"

definition adjustLon :: "real \<Rightarrow> real \<Rightarrow> real" where
  "adjustLon prev l =
     (if l - prev > 180 then l - 360 else if l - prev < - 180 then l + 360 else l)"






text \<open>
  The two sides of a crossing, in the words of the source: before sunrise the altitude is
  below the target, before sunset it is above it.
\<close>

definition beforeEvent :: "Direction \<Rightarrow> real \<Rightarrow> real \<Rightarrow> bool" where
  "beforeEvent direction alt targetAltitude =
     (if direction = Rise then alt < targetAltitude else alt > targetAltitude)"

text \<open>
  One round of bisection on a window \<open>(low, high)\<close>: the altitude is taken at the midpoint,
  and the midpoint replaces the lower end when it lies before the event and the upper end
  otherwise.
\<close>

definition bisectionStep :: "real \<Rightarrow> real \<Rightarrow> real \<Rightarrow> Direction \<Rightarrow> Date \<times> Date \<Rightarrow> Date \<times> Date" where
  "bisectionStep lat' lon' targetAltitude direction w =
     (let mid = newDate ((of_int (fst w) + of_int (snd w)) / 2)
      in if beforeEvent direction (altitude (calculateSunPosition lat' lon' mid)) targetAltitude
         then (mid, snd w) else (fst w, mid))"



declare antimeridianLoop.simps [simp del]
declare bisectLoop.simps [simp del]
declare generateLoop.simps [simp del]

section \<open>Properties of the aircraft side logic\<close>

lemma relativeBearing_eq:
  "relativeBearing (calculateAircraftSunExposure h a alt) =
     (let r0 = a - h; r1 = (if r0 > 180 then r0 - 360 else r0)
      in if r1 < - 180 then r1 + 360 else r1)"
  by (simp add: calculateAircraftSunExposure_def Let_def split: prod.splits)

text \<open>
  C5, as stated: for heading and sun azimuth in \<open>[0, 360)\<close> the relative bearing lies in
  the half-open interval \<open>(-180, 180]\<close>. It does not: a heading of 180 with the sun at
  azimuth 0 gives a difference of exactly \<open>-180\<close>, which neither statement adjusts.
\<close>

theorem relativeBearing_half_open_counterexample:
  "(0::real) \<le> 180 \<and> (180::real) < 360 \<and> (0::real) \<le> 0 \<and> (0::real) < 360 \<and>
   relativeBearing (calculateAircraftSunExposure 180 0 45) = - 180 \<and>
   \<not> (- 180 < relativeBearing (calculateAircraftSunExposure 180 0 45))"
  by (simp add: relativeBearing_eq)

text \<open>
  C5, amended: for heading and sun azimuth in \<open>[0, 360)\<close> the relative bearing lies in the
  closed interval \<open>[-180, 180]\<close>; it is the difference \<open>sunAzimuth - heading\<close>, moved by 360
  when that difference is above 180 or below \<open>-180\<close>.
\<close>

theorem relativeBearing_closed_range:
  assumes "0 \<le> hdg" "hdg < 360" "0 \<le> az" "az < 360"
  shows "- 180 \<le> relativeBearing (calculateAircraftSunExposure hdg az alt) \<and>
         relativeBearing (calculateAircraftSunExposure hdg az alt) \<le> 180 \<and>
         relativeBearing (calculateAircraftSunExposure hdg az alt) =
           (if az - hdg > 180 then az - hdg - 360
            else if az - hdg < - 180 then az - hdg + 360
            else az - hdg)"
  using assms by (simp add: relativeBearing_eq Let_def)

theorem relativeBearing_closed_range_witness:
  "(0::real) \<le> 90 \<and> (90::real) < 360 \<and> (0::real) \<le> 180 \<and> (180::real) < 360 \<and>
   - 180 \<le> relativeBearing (calculateAircraftSunExposure 90 180 45) \<and>
   relativeBearing (calculateAircraftSunExposure 90 180 45) \<le> 180 \<and>
   relativeBearing (calculateAircraftSunExposure 90 180 45) = 90"
  using relativeBearing_closed_range [of 90 180 45] by simp

section \<open>Properties of the great circle routes\<close>

lemma atan2_zero_pos: "0 < x \<Longrightarrow> atan2 0 x = 0"
  by (simp add: atan2_def)

lemma calculateDistance_same: "calculateDistance la lo la lo = 0"
  by (simp add: calculateDistance_def toRadians_def atan2_def)

text \<open>
  C8: when the angular distance \<open>\<delta> = distance / R\<close> of the two points is below the
  threshold \<open>0.00001\<close>, \<open>intermediatePoint\<close> returns the first point, whatever the fraction;
  the quotients by \<open>sin \<delta>\<close> are in the other branch. Coincident points are such a pair.
\<close>

theorem intermediatePoint_degenerate:
  "(calculateDistance (lat p1) (lon p1) (lat p2) (lon p2) / EARTH_RADIUS_KM < 0.00001 \<longrightarrow>
      intermediatePoint p1 p2 fraction = \<lparr>lat = lat p1, lon = lon p1\<rparr>) \<and>
   (lat p2 = lat p1 \<and> lon p2 = lon p1 \<longrightarrow>
      intermediatePoint p1 p2 fraction = \<lparr>lat = lat p1, lon = lon p1\<rparr>)"
  by (simp add: intermediatePoint_def Let_def calculateDistance_same)

theorem intermediatePoint_degenerate_witness:
  "calculateDistance 10 20 10 20 / EARTH_RADIUS_KM < 0.00001 \<and>
   intermediatePoint \<lparr>lat = 10, lon = 20\<rparr> \<lparr>lat = 10, lon = 20\<rparr> (1 / 2) = \<lparr>lat = 10, lon = 20\<rparr>"
  using intermediatePoint_degenerate [of "\<lparr>lat = 10, lon = 20\<rparr>" "\<lparr>lat = 10, lon = 20\<rparr>" "1 / 2"]
  by (simp add: calculateDistance_same)

subsection \<open>The antimeridian pass\<close>

lemma lonShifted_refl: "lonShifted w w"
  by (simp add: lonShifted_def)

lemma antimeridianLoop_stop:
  "\<not> (1 \<le> i \<and> i < length ws) \<Longrightarrow> antimeridianLoop i ws = ws"
  by (subst antimeridianLoop.simps) auto

lemma antimeridianLoop_step:
  "1 \<le> i \<Longrightarrow> i < length ws \<Longrightarrow>
   antimeridianLoop i ws =
     antimeridianLoop (i + 1)
       (if lon (ws ! i) - lon (ws ! (i - 1)) > 180
          then ws[i := (ws ! i)\<lparr>lon := lon (ws ! i) - 360\<rparr>]
        else if lon (ws ! i) - lon (ws ! (i - 1)) < - 180
          then ws[i := (ws ! i)\<lparr>lon := lon (ws ! i) + 360\<rparr>]
        else ws)"
  by (subst antimeridianLoop.simps) (simp add: Let_def)

lemma antimeridianLoop_frame:
  "length (antimeridianLoop i ws) = length ws \<and>
   (\<forall>j<length ws.
      (j < i \<longrightarrow> antimeridianLoop i ws ! j = ws ! j) \<and>
      lonShifted (ws ! j) (antimeridianLoop i ws ! j))"
proof (induction "length ws - i" arbitrary: i ws rule: less_induct)
  case less
  show ?case
  proof (cases "1 \<le> i \<and> i < length ws")
    case False
    then show ?thesis by (simp add: antimeridianLoop_stop lonShifted_refl)
  next
    case True
    define ws' where "ws' = (if lon (ws ! i) - lon (ws ! (i - 1)) > 180
          then ws[i := (ws ! i)\<lparr>lon := lon (ws ! i) - 360\<rparr>]
        else if lon (ws ! i) - lon (ws ! (i - 1)) < - 180
          then ws[i := (ws ! i)\<lparr>lon := lon (ws ! i) + 360\<rparr>]
        else ws)"
    have step: "antimeridianLoop i ws = antimeridianLoop (i + 1) ws'"
      using True antimeridianLoop_step[of i ws] by (simp add: ws'_def)
    have len: "length ws' = length ws" by (simp add: ws'_def)
    have "length ws' - (i + 1) < length ws - i" using True len by linarith
    from less[OF this]
    have IH: "length (antimeridianLoop (i + 1) ws') = length ws' \<and>
      (\<forall>j<length ws'.
        (j < i + 1 \<longrightarrow> antimeridianLoop (i + 1) ws' ! j = ws' ! j) \<and>
        lonShifted (ws' ! j) (antimeridianLoop (i + 1) ws' ! j))" .
    have other: "ws' ! j = ws ! j" if "j \<noteq> i" for j using that by (simp add: ws'_def)
    have here: "lonShifted (ws ! i) (ws' ! i)"
      using True by (simp add: ws'_def lonShifted_def)
    show ?thesis
    proof (intro conjI allI impI)
      show "length (antimeridianLoop i ws) = length ws" using IH len step by simp
    next
      fix j assume j: "j < length ws" and ji: "j < i"
      have "antimeridianLoop (i + 1) ws' ! j = ws' ! j" using IH j ji len by auto
      then show "antimeridianLoop i ws ! j = ws ! j" using ji step other[of j] by simp
    next
      fix j assume j: "j < length ws"
      show "lonShifted (ws ! j) (antimeridianLoop i ws ! j)"
      proof (cases "j = i")
        case False
        have "lonShifted (ws' ! j) (antimeridianLoop (i + 1) ws' ! j)" using IH j len by auto
        then show ?thesis using False step other[of j] by simp
      next
        case True
        have "antimeridianLoop (i + 1) ws' ! j = ws' ! j" using IH j len True by auto
        then have "antimeridianLoop i ws ! j = ws' ! i" using step True by simp
        then show ?thesis using here True by simp
      qed
    qed
  qed
qed

text \<open>
  C10: the antimeridian pass returns a list of the same length in which every waypoint
  keeps its latitude, cumulative distance and bearing, and has a longitude that differs
  from the one it came in with by an integer multiple of 360 (the multiplier is -1, 0 or 1).
\<close>

theorem handleAntimeridianCrossing_frame:
  "length (handleAntimeridianCrossing waypoints) = length waypoints \<and>
   (\<forall>i<length waypoints.
      lat (handleAntimeridianCrossing waypoints ! i) = lat (waypoints ! i) \<and>
      distance (handleAntimeridianCrossing waypoints ! i) = distance (waypoints ! i) \<and>
      bearing (handleAntimeridianCrossing waypoints ! i) = bearing (waypoints ! i) \<and>
      (\<exists>k::int. \<bar>k\<bar> \<le> 1 \<and>
         lon (handleAntimeridianCrossing waypoints ! i) = lon (waypoints ! i) + 360 * of_int k))"
proof (intro conjI allI impI)
  show "length (handleAntimeridianCrossing waypoints) = length waypoints"
    by (simp add: handleAntimeridianCrossing_def antimeridianLoop_frame)
next
  fix i assume i: "i < length waypoints"
  then have s: "lonShifted (waypoints ! i) (handleAntimeridianCrossing waypoints ! i)"
    using antimeridianLoop_frame[of 1 waypoints] by (simp add: handleAntimeridianCrossing_def)
  show "lat (handleAntimeridianCrossing waypoints ! i) = lat (waypoints ! i)"
    using s by (simp add: lonShifted_def)
  show "distance (handleAntimeridianCrossing waypoints ! i) = distance (waypoints ! i)"
    using s by (simp add: lonShifted_def)
  show "bearing (handleAntimeridianCrossing waypoints ! i) = bearing (waypoints ! i)"
    using s by (simp add: lonShifted_def)
  from s consider
      "lon (handleAntimeridianCrossing waypoints ! i) = lon (waypoints ! i) + 360 * of_int (- 1)"
    | "lon (handleAntimeridianCrossing waypoints ! i) = lon (waypoints ! i) + 360 * of_int 0"
    | "lon (handleAntimeridianCrossing waypoints ! i) = lon (waypoints ! i) + 360 * of_int 1"
    by (auto simp: lonShifted_def)
  then show "\<exists>k::int. \<bar>k\<bar> \<le> 1 \<and>
         lon (handleAntimeridianCrossing waypoints ! i) = lon (waypoints ! i) + 360 * of_int k"
  proof cases
    case 1 then show ?thesis by (intro exI[of _ "- 1"]) simp
  next
    case 2 then show ?thesis by (intro exI[of _ 0]) simp
  next
    case 3 then show ?thesis by (intro exI[of _ 1]) simp
  qed
qed

theorem handleAntimeridianCrossing_frame_witness:
  "length (handleAntimeridianCrossing
      [\<lparr>lat = 0, lon = 170, distance = 0, bearing = 90\<rparr>,
       \<lparr>lat = 0, lon = - 170, distance = 2000, bearing = 90\<rparr>]) = 2 \<and>
   (1::nat) < 2 \<and>
   lat (handleAntimeridianCrossing
      [\<lparr>lat = 0, lon = 170, distance = 0, bearing = 90\<rparr>,
       \<lparr>lat = 0, lon = - 170, distance = 2000, bearing = 90\<rparr>] ! 1) = 0 \<and>
   distance (handleAntimeridianCrossing
      [\<lparr>lat = 0, lon = 170, distance = 0, bearing = 90\<rparr>,
       \<lparr>lat = 0, lon = - 170, distance = 2000, bearing = 90\<rparr>] ! 1) = 2000 \<and>
   bearing (handleAntimeridianCrossing
      [\<lparr>lat = 0, lon = 170, distance = 0, bearing = 90\<rparr>,
       \<lparr>lat = 0, lon = - 170, distance = 2000, bearing = 90\<rparr>] ! 1) = 90"
  using handleAntimeridianCrossing_frame
    [of "[\<lparr>lat = 0, lon = 170, distance = 0, bearing = 90\<rparr>,
          \<lparr>lat = 0, lon = - 170, distance = 2000, bearing = 90\<rparr>]"]
  by simp

section \<open>Properties of the flight analysis\<close>






lemma generateLoop_step:
  "i < n \<Longrightarrow> generateLoop orig dest n tot i ws =
     generateLoop orig dest n tot (i + 1) (ws @ [rawWaypoint orig dest n tot i])"
  by (subst generateLoop.simps) (simp add: Let_def rawWaypoint_def)

lemma generateLoop_last:
  "1 \<le> n \<Longrightarrow> n - 1 < length ws \<Longrightarrow> generateLoop orig dest n tot n ws =
     Some (ws @ [(rawWaypoint orig dest n tot n)\<lparr>bearing := bearing (ws ! (n - 1))\<rparr>])"
  by (subst generateLoop.simps, subst generateLoop.simps) (simp add: Let_def rawWaypoint_def)

lemma generateLoop_zero: "generateLoop orig dest 0 tot 0 [] = None"
  by (subst generateLoop.simps) (simp add: Let_def)

lemma generateLoop_prefix:
  "i \<le> n \<Longrightarrow> 1 \<le> n \<Longrightarrow> ws = map (rawWaypoint orig dest n tot) [0..<i] \<Longrightarrow>
   generateLoop orig dest n tot i ws = Some (rawWaypoints orig dest n tot)"
proof (induction "n - i" arbitrary: i ws)
  case 0
  then have "i = n" by simp
  with 0 show ?case
    by (simp add: generateLoop_last rawWaypoints_def nth_append)
next
  case (Suc k)
  then have lt: "i < n" by simp
  have "generateLoop orig dest n tot (i + 1) (ws @ [rawWaypoint orig dest n tot i])
        = Some (rawWaypoints orig dest n tot)"
    using Suc lt by (intro Suc.hyps(1)) auto
  then show ?case using lt by (simp add: generateLoop_step)
qed

lemma generateWaypoints_eq:
  "1 \<le> n \<Longrightarrow> generateWaypoints orig dest n =
     Some (handleAntimeridianCrossing (rawWaypoints orig dest n
        (calculateDistance (lat orig) (lon orig) (lat dest) (lon dest))))"
  by (simp add: generateWaypoints_def Let_def generateLoop_prefix)

lemma generateWaypoints_zero: "generateWaypoints orig dest 0 = None"
  by (simp add: generateWaypoints_def generateLoop_zero)

lemma rawWaypoints_length: "length (rawWaypoints orig dest n tot) = n + 1"
  by (simp add: rawWaypoints_def)

lemma rawWaypoints_nth:
  "i \<le> n \<Longrightarrow> lat (rawWaypoints orig dest n tot ! i) = lat (intermediatePoint orig dest (real i / real n))"
  "i \<le> n \<Longrightarrow> lon (rawWaypoints orig dest n tot ! i) = lon (intermediatePoint orig dest (real i / real n))"
  "i \<le> n \<Longrightarrow> distance (rawWaypoints orig dest n tot ! i) = tot * (real i / real n)"
  by (auto simp: rawWaypoints_def nth_append rawWaypoint_def Let_def)

lemma atan2_nonneg: "0 \<le> y \<Longrightarrow> 0 \<le> atan2 y x"
proof -
  assume y: "0 \<le> y"
  have "0 \<le> arctan (y / x)" if "0 < x"
  proof -
    have "0 \<le> y / x" using that y by simp
    then show ?thesis by (simp add: arctan_le_iff[of 0, simplified])
  qed
  moreover have "0 \<le> arctan (y / x) + pi"
    using arctan_lbound[of "y / x"] pi_gt_zero by linarith
  ultimately show ?thesis using y by (auto simp: atan2_def)
qed

lemma atan2_le_pi: "atan2 y x \<le> pi"
proof -
  have a: "arctan (y / x) < pi / 2" by (rule arctan_ubound)
  have b: "- (pi / 2) < arctan (y / x)" by (rule arctan_lbound)
  have "arctan (y / x) + pi \<le> pi" if "x < 0" "0 \<le> y"
  proof -
    have "y / x \<le> 0" using that by (simp add: divide_nonneg_neg)
    then show ?thesis by simp
  qed
  then show ?thesis using a b by (auto simp: atan2_def)
qed

lemma atan2_gt_minus_pi: "- pi < atan2 y x"
proof -
  have a: "arctan (y / x) < pi / 2" by (rule arctan_ubound)
  have b: "- (pi / 2) < arctan (y / x)" by (rule arctan_lbound)
  have "- pi < arctan (y / x) - pi" if "x < 0" "y < 0"
  proof -
    have "0 < y / x" using that by (simp add: divide_neg_neg)
    then show ?thesis by simp
  qed
  then show ?thesis using a b by (auto simp: atan2_def)
qed

lemma sqrt_sum_squares_factor:
  assumes "x \<noteq> 0"
  shows "sqrt (x\<^sup>2 + y\<^sup>2) = \<bar>x\<bar> * sqrt (1 + (y / x)\<^sup>2)"
proof -
  have "x\<^sup>2 + y\<^sup>2 = x\<^sup>2 * (1 + (y / x)\<^sup>2)"
    using assms by (simp add: field_simps power2_eq_square)
  then show ?thesis by (simp add: real_sqrt_mult)
qed

lemma cos_atan2:
  assumes "x \<noteq> 0 \<or> y \<noteq> 0"
  shows "cos (atan2 y x) = x / sqrt (x\<^sup>2 + y\<^sup>2)"
proof -
  consider (pos) "0 < x" | (neg) "x < 0" | (zero) "x = 0" by linarith
  then show ?thesis
  proof cases
    case pos
    then show ?thesis
      by (simp add: atan2_def cos_arctan sqrt_sum_squares_factor)
  next
    case neg
    have "cos (atan2 y x) = - cos (arctan (y / x))"
      using neg by (simp add: atan2_def cos_diff)
    then show ?thesis using neg
      by (simp add: cos_arctan sqrt_sum_squares_factor)
  next
    case zero
    then show ?thesis using assms by (auto simp: atan2_def)
  qed
qed

lemma sin_atan2:
  assumes "x \<noteq> 0 \<or> y \<noteq> 0"
  shows "sin (atan2 y x) = y / sqrt (x\<^sup>2 + y\<^sup>2)"
proof -
  consider (pos) "0 < x" | (neg) "x < 0" | (zero) "x = 0" by linarith
  then show ?thesis
  proof cases
    case pos
    then show ?thesis
      by (simp add: atan2_def sin_arctan sqrt_sum_squares_factor)
  next
    case neg
    have "sin (atan2 y x) = - sin (arctan (y / x))"
      using neg by (simp add: atan2_def sin_diff)
    then show ?thesis using neg
      by (simp add: sin_arctan sqrt_sum_squares_factor)
  next
    case zero
    then have "y \<noteq> 0" using assms by simp
    then show ?thesis using zero
      by (cases "0 < y") (simp_all add: atan2_def real_sqrt_abs)
  qed
qed



lemma toRadians_range:
  "- 90 \<le> d \<Longrightarrow> d \<le> 90 \<Longrightarrow> - (pi / 2) \<le> toRadians d \<and> toRadians d \<le> pi / 2"
proof -
  assume a: "- 90 \<le> d" "d \<le> 90"
  have "d * pi \<le> 90 * pi" "(- 90) * pi \<le> d * pi"
    using a mult_right_mono[of d 90 pi] mult_right_mono[of "- 90" d pi] by simp_all
  then show ?thesis by (simp add: toRadians_def)
qed

lemma toRadians_range_strict:
  "- 90 < d \<Longrightarrow> d < 90 \<Longrightarrow> - (pi / 2) < toRadians d \<and> toRadians d < pi / 2"
proof -
  assume a: "- 90 < d" "d < 90"
  have "d * pi < 90 * pi" "(- 90) * pi < d * pi"
    using a mult_strict_right_mono[of d 90 pi] mult_strict_right_mono[of "- 90" d pi] by simp_all
  then show ?thesis by (simp add: toRadians_def)
qed


lemma toDegrees_toRadians [simp]: "toDegrees (toRadians d) = d"
  by (simp add: toDegrees_def toRadians_def)

lemma cos_lat_nonneg: "- 90 \<le> d \<Longrightarrow> d \<le> 90 \<Longrightarrow> 0 \<le> cos (toRadians d)"
  using toRadians_range[of d] by (simp add: cos_ge_zero)


lemma calculateDistance_haversine:
  "calculateDistance lat1 lon1 lat2 lon2 =
     EARTH_RADIUS_KM * (2 * atan2 (sqrt (haversine lat1 lon1 lat2 lon2))
                                 (sqrt (1 - haversine lat1 lon1 lat2 lon2)))"
  by (simp add: calculateDistance_def haversine_def Let_def)

lemma haversine_nonneg:
  assumes "- 90 \<le> lat1" "lat1 \<le> 90" "- 90 \<le> lat2" "lat2 \<le> 90"
  shows "0 \<le> haversine lat1 lon1 lat2 lon2"
proof -
  have "0 \<le> cos (toRadians lat1) * cos (toRadians lat2)"
    using assms by (simp add: cos_lat_nonneg)
  then have "0 \<le> cos (toRadians lat1) * cos (toRadians lat2)
       * (sin (toRadians (lon2 - lon1) / 2) * sin (toRadians (lon2 - lon1) / 2))"
    by (rule mult_nonneg_nonneg) simp
  then show ?thesis unfolding haversine_def by (simp add: mult.assoc)
qed






lemma intermediatePoint_near:
  "angularDistance p1 p2 < 0.00001 \<Longrightarrow> intermediatePoint p1 p2 f = \<lparr>lat = lat p1, lon = lon p1\<rparr>"
  by (simp add: intermediatePoint_def Let_def angularDistance_def)

lemma antimeridianLoop_unfold:
  "1 \<le> i \<Longrightarrow> i \<le> j \<Longrightarrow> j < length ws \<Longrightarrow>
   antimeridianLoop i ws ! j =
     (ws ! j)\<lparr>lon := adjustLon (lon (antimeridianLoop i ws ! (j - 1))) (lon (ws ! j))\<rparr>"
proof (induction "length ws - i" arbitrary: i ws rule: less_induct)
  case less
  define ws' where "ws' = (if lon (ws ! i) - lon (ws ! (i - 1)) > 180
          then ws[i := (ws ! i)\<lparr>lon := lon (ws ! i) - 360\<rparr>]
        else if lon (ws ! i) - lon (ws ! (i - 1)) < - 180
          then ws[i := (ws ! i)\<lparr>lon := lon (ws ! i) + 360\<rparr>]
        else ws)"
  have il: "i < length ws" using less.prems by simp
  have step: "antimeridianLoop i ws = antimeridianLoop (i + 1) ws'"
    using less.prems il antimeridianLoop_step[of i ws] by (simp add: ws'_def)
  have len: "length ws' = length ws" by (simp add: ws'_def)
  have other: "ws' ! k = ws ! k" if "k \<noteq> i" for k using that by (simp add: ws'_def)
  have here: "ws' ! i = (ws ! i)\<lparr>lon := adjustLon (lon (ws ! (i - 1))) (lon (ws ! i))\<rparr>"
    using il by (simp add: ws'_def adjustLon_def)
  have keep: "antimeridianLoop (i + 1) ws' ! k = ws' ! k" if "k < i + 1" for k
    using antimeridianLoop_frame[of "i + 1" ws'] that il len by auto
  show ?case
  proof (cases "j = i")
    case True
    have "antimeridianLoop i ws ! (i - 1) = ws ! (i - 1)"
      using keep[of "i - 1"] other[of "i - 1"] less.prems(1) step by simp
    moreover have "antimeridianLoop i ws ! i = ws' ! i" using keep[of i] step by simp
    ultimately show ?thesis using True here by simp
  next
    case False
    then have j: "i + 1 \<le> j" using less.prems by simp
    have "length ws' - (i + 1) < length ws - i" using il len by linarith
    from less.hyps[OF this _ j] less.prems len
    have "antimeridianLoop (i + 1) ws' ! j =
       (ws' ! j)\<lparr>lon := adjustLon (lon (antimeridianLoop (i + 1) ws' ! (j - 1))) (lon (ws' ! j))\<rparr>"
      by simp
    then show ?thesis using step other[of j] False by simp
  qed
qed

lemma handleAntimeridianCrossing_nth:
  "1 \<le> j \<Longrightarrow> j < length ws \<Longrightarrow>
   handleAntimeridianCrossing ws ! j =
     (ws ! j)\<lparr>lon := adjustLon (lon (handleAntimeridianCrossing ws ! (j - 1))) (lon (ws ! j))\<rparr>"
  unfolding handleAntimeridianCrossing_def by (rule antimeridianLoop_unfold) simp_all

lemma handleAntimeridianCrossing_0:
  "0 < length ws \<Longrightarrow> handleAntimeridianCrossing ws ! 0 = ws ! 0"
  unfolding handleAntimeridianCrossing_def using antimeridianLoop_frame[of 1 ws] by auto




lemma handleAntimeridianCrossing_length:
  "length (handleAntimeridianCrossing ws) = length ws"
  unfolding handleAntimeridianCrossing_def using antimeridianLoop_frame[of 1 ws] by auto




section \<open>Properties of the bisection\<close>

lemma trunc_of_int [simp]: "trunc (of_int k) = k"
  by (simp add: trunc_def)

lemma trunc_between:
  assumes "of_int lo \<le> x" "x \<le> of_int hi"
  shows "lo \<le> trunc x \<and> trunc x \<le> hi"
  using assms by (auto simp: trunc_def le_floor_iff floor_le_iff ceiling_le_iff le_ceiling_iff)

lemma midpoint_between:
  assumes "low \<le> high"
  shows "low \<le> newDate ((of_int low + of_int high) / 2) \<and>
         newDate ((of_int low + of_int high) / 2) \<le> high"
  unfolding newDate_def using assms by (intro trunc_between) simp_all

lemma bisectLoop_break:
  "i < MAX_ITERATIONS \<Longrightarrow> high - low < PRECISION_MS \<Longrightarrow>
   bisectLoop la lo target dir i low high = (i, low, high)"
  by (subst bisectLoop.simps) simp

lemma bisectLoop_end:
  "\<not> i < MAX_ITERATIONS \<Longrightarrow> bisectLoop la lo target dir i low high = (i, low, high)"
  by (subst bisectLoop.simps) simp

lemma bisectLoop_round:
  "i < MAX_ITERATIONS \<Longrightarrow> \<not> high - low < PRECISION_MS \<Longrightarrow>
   \<exists>low' high'. bisectLoop la lo target dir i low high =
                  bisectLoop la lo target dir (i + 1) low' high' \<and>
     ((low' = newDate ((of_int low + of_int high) / 2) \<and> high' = high) \<or>
      (low' = low \<and> high' = newDate ((of_int low + of_int high) / 2)))"
  by (subst bisectLoop.simps) (auto simp: Let_def)

lemma bisectLoop_bounded:
  "\<exists>i' low' high'. bisectLoop la lo target dir i low high = (i', low', high') \<and>
     i \<le> i' \<and> (i \<le> MAX_ITERATIONS \<longrightarrow> i' \<le> MAX_ITERATIONS) \<and>
     (i' < MAX_ITERATIONS \<longrightarrow> high' - low' < PRECISION_MS) \<and>
     (low \<le> high \<longrightarrow> low \<le> low' \<and> low' \<le> high' \<and> high' \<le> high)"
proof (induction "MAX_ITERATIONS - i" arbitrary: i low high rule: less_induct)
  case less
  show ?case
  proof (cases "i < MAX_ITERATIONS")
    case False
    then show ?thesis by (simp add: bisectLoop_end)
  next
    case True
    show ?thesis
    proof (cases "high - low < PRECISION_MS")
      case close: True
      then show ?thesis using True by (simp add: bisectLoop_break)
    next
      case False
      from bisectLoop_round[OF True False, of la lo target dir]
      obtain low1 high1 where r:
        "bisectLoop la lo target dir i low high = bisectLoop la lo target dir (i + 1) low1 high1"
        "(low1 = newDate ((of_int low + of_int high) / 2) \<and> high1 = high) \<or>
         (low1 = low \<and> high1 = newDate ((of_int low + of_int high) / 2))"
        by blast
      have w: "low \<le> high \<Longrightarrow> low \<le> low1 \<and> low1 \<le> high1 \<and> high1 \<le> high"
        using r(2) midpoint_between[of low high] by auto
      have "MAX_ITERATIONS - (i + 1) < MAX_ITERATIONS - i" using True by simp
      from less[OF this, of low1 high1]
      obtain i' low' high' where IH:
        "bisectLoop la lo target dir (i + 1) low1 high1 = (i', low', high')"
        "i + 1 \<le> i'" "i + 1 \<le> MAX_ITERATIONS \<longrightarrow> i' \<le> MAX_ITERATIONS"
        "i' < MAX_ITERATIONS \<longrightarrow> high' - low' < PRECISION_MS"
        "low1 \<le> high1 \<longrightarrow> low1 \<le> low' \<and> low' \<le> high' \<and> high' \<le> high1"
        by blast
      show ?thesis using r(1) IH w True by auto
    qed
  qed
qed

lemma searchWindow_eq:
  "searchWindow date noon Rise = (Day date * msPerDay, noon)"
  "searchWindow date noon Set = (noon, Day date * msPerDay + 86399999)"
  by (simp_all add: searchWindow_def setUTCHours4_def MakeDate_def MakeTime_def trunc_def)







lemma js_rem_range:
  assumes "0 \<le> x" "0 < y"
  shows "0 \<le> js_rem x y \<and> js_rem x y < y"
proof -
  define k :: real where "k = of_int \<lfloor>x / y\<rfloor>"
  have q: "0 \<le> x / y" using assms by simp
  have "k \<le> x / y" "x / y < k + 1" unfolding k_def by linarith+
  then have "k * y \<le> x" "x < (k + 1) * y"
    using assms(2) by (simp_all only: pos_le_divide_eq pos_divide_less_eq)
  then have "k * y \<le> x" "x < k * y + y" by (simp_all add: distrib_right)
  moreover have "js_rem x y = x - y * k" using q by (simp add: js_rem_def trunc_def k_def)
  ultimately show ?thesis by (simp add: mult.commute)
qed

lemma sin_lower_4:
  fixes x :: real
  shows "x - x ^ 3 / 6 - \<bar>x\<bar> ^ 4 / 24 \<le> sin x"
proof -
  have "{..<4::nat} = {0, 1, 2, 3}" by auto
  then have "(\<Sum>m<4. sin_coeff m * x ^ m) = x - x ^ 3 / 6"
    by (simp add: sin_coeff_def fact_numeral)
  then have "\<bar>sin x - (x - x ^ 3 / 6)\<bar> \<le> inverse (fact 4) * \<bar>x\<bar> ^ 4"
    using Maclaurin_sin_bound[of x 4] by simp
  moreover have "inverse (fact 4 :: real) = 1 / 24" by (simp add: fact_numeral)
  ultimately have "\<bar>sin x - (x - x ^ 3 / 6)\<bar> \<le> \<bar>x\<bar> ^ 4 / 24" by simp
  then show ?thesis by linarith
qed

lemma tan_lower:
  fixes c x :: real
  assumes c: "0 \<le> c" "c \<le> x" "x < pi / 2"
  shows "c - c ^ 3 / 6 - c ^ 4 / 24 \<le> tan x"
proof -
  have cl: "- (pi / 2) < c" "c < pi / 2" "c \<le> pi" using c pi_gt_zero by linarith+
  have cp: "0 < cos c" using cl by (intro cos_gt_zero_pi)
  have s0: "0 \<le> sin c" using c cl by (intro sin_ge_zero)
  have "sin c * cos c \<le> sin c * 1" using s0 by (intro mult_left_mono) simp_all
  then have "sin c \<le> sin c / cos c" using cp by (simp add: field_simps)
  also have "\<dots> = tan c" by (simp add: tan_def)
  also have "tan c \<le> tan x" using c cl by (intro tan_mono_le)
  finally have "sin c \<le> tan x" .
  moreover have "c - c ^ 3 / 6 - c ^ 4 / 24 \<le> sin c" using sin_lower_4[of c] c by simp
  ultimately show ?thesis by linarith
qed

lemma sinAlt_bounds:
  fixes a b h :: real
  shows "\<bar>sin a * sin b + cos a * cos b * cos h\<bar> \<le> 1"
proof -
  have "\<bar>cos a * cos b\<bar> * \<bar>cos h\<bar> \<le> \<bar>cos a * cos b\<bar> * 1"
    by (intro mult_left_mono) simp_all
  then have 1: "\<bar>cos a * cos b * cos h\<bar> \<le> \<bar>cos a * cos b\<bar>" by (simp add: abs_mult)
  have 2: "2 * \<bar>sin a * sin b\<bar> \<le> (sin a)\<^sup>2 + (sin b)\<^sup>2"
    using sum_squares_bound[of "\<bar>sin a\<bar>" "\<bar>sin b\<bar>"] by (simp add: abs_mult)
  have 3: "2 * \<bar>cos a * cos b\<bar> \<le> (cos a)\<^sup>2 + (cos b)\<^sup>2"
    using sum_squares_bound[of "\<bar>cos a\<bar>" "\<bar>cos b\<bar>"] by (simp add: abs_mult)
  have "(sin a)\<^sup>2 + (cos a)\<^sup>2 = 1" "(sin b)\<^sup>2 + (cos b)\<^sup>2 = 1" by simp_all
  then have "\<bar>sin a * sin b\<bar> + \<bar>cos a * cos b\<bar> \<le> 1" using 2 3 by linarith
  then show ?thesis using 1 by linarith
qed

lemma toDegrees_bounds:
  assumes "- (pi / 2) \<le> r" "r \<le> pi / 2"
  shows "- 90 \<le> toDegrees r \<and> toDegrees r \<le> 90"
proof -
  have "r * 180 / pi \<le> (pi / 2) * 180 / pi"
    using assms by (intro divide_right_mono mult_right_mono) simp_all
  moreover have "(- (pi / 2)) * 180 / pi \<le> r * 180 / pi"
    using assms by (intro divide_right_mono mult_right_mono) simp_all
  ultimately show ?thesis by (simp add: toDegrees_def)
qed

lemma toDegrees_arcsin_range:
  assumes "\<bar>s\<bar> \<le> 1"
  shows "- 90 \<le> toDegrees (arcsin s) \<and> toDegrees (arcsin s) \<le> 90"
proof -
  have "- (pi / 2) \<le> arcsin s \<and> arcsin s \<le> pi / 2"
    using assms by (intro arcsin_bounded) (simp_all add: abs_le_iff)
  then show ?thesis using toDegrees_bounds by blast
qed

lemma toDegrees_arccos_clamped:
  "0 \<le> toDegrees (arccos (max (- 1) (min 1 q))) \<and> toDegrees (arccos (max (- 1) (min 1 q))) \<le> 180"
proof -
  have "- 1 \<le> max (- 1) (min 1 q)" "max (- 1) (min 1 q) \<le> 1" by simp_all
  then have a: "0 \<le> arccos (max (- 1) (min 1 q))" "arccos (max (- 1) (min 1 q)) \<le> pi"
    by (simp_all only: arccos_lbound arccos_ubound)
  have "arccos (max (- 1) (min 1 q)) * 180 / pi \<le> pi * 180 / pi"
    using a by (intro divide_right_mono mult_right_mono) simp_all
  then show ?thesis using a by (simp add: toDegrees_def)
qed

lemma abs_mult_bound:
  fixes a q :: real
  assumes "\<bar>a\<bar> \<le> A" "\<bar>q\<bar> \<le> B"
  shows "\<bar>a * q\<bar> \<le> A * B"
proof -
  have "\<bar>a\<bar> * \<bar>q\<bar> \<le> A * B" using assms by (intro mult_mono) simp_all
  then show ?thesis by (simp add: abs_mult)
qed

lemma toRadians_minus [simp]: "toRadians (- a) = - toRadians a"
  by (simp add: toRadians_def)

lemma refraction_mid:
  assumes a: "5 < a" "a \<le> 85"
  shows "- (1 / 5) \<le> getRefractionCorrection a \<and> getRefractionCorrection a \<le> 1 / 2"
proof -
  define t where "t = tan (toRadians a)"
  define u where "u = 1 / t"
  have x1: "1 / 18 \<le> toRadians a"
  proof -
    define y where "y = a * pi"
    have "5 * 2 \<le> y" unfolding y_def using a pi_ge_two by (intro mult_mono) simp_all
    moreover have "toRadians a = y / 180" by (simp add: toRadians_def y_def)
    ultimately show ?thesis by simp
  qed
  have x2: "toRadians a < pi / 2"
  proof -
    define y where "y = a * pi"
    have "y \<le> 85 * pi" unfolding y_def using a by (intro mult_right_mono) simp_all
    moreover have "85 * pi < 90 * pi" by simp
    moreover have "toRadians a = y / 180" by (simp add: toRadians_def y_def)
    ultimately show ?thesis using pi_gt_zero by linarith
  qed
  have "(1 / 18 :: real) - (1 / 18) ^ 3 / 6 - (1 / 18) ^ 4 / 24 \<le> t"
    unfolding t_def using x1 x2 by (intro tan_lower) simp_all
  moreover have "(1 / 20 :: real) \<le> 1 / 18 - (1 / 18) ^ 3 / 6 - (1 / 18) ^ 4 / 24"
    by (simp add: power_divide)
  ultimately have t: "1 / 20 \<le> t" by linarith
  then have tp: "0 < t" by linarith
  have u: "0 < u" "u \<le> 20"
    using t tp by (simp_all add: u_def field_simps)
  have u3: "0 \<le> u ^ 3" "u ^ 3 \<le> 20 ^ 3" using u by (simp, intro power_mono) simp_all
  have u5: "0 \<le> u ^ 5" "u ^ 5 \<le> 20 ^ 5" using u by (simp, intro power_mono) simp_all
  have c: "getRefractionCorrection a = (58.1 * u - 0.07 * u ^ 3 + 0.000086 * u ^ 5) / 3600"
    using a by (simp add: getRefractionCorrection_def tanDeg_def Let_def t_def[symmetric]
        u_def power_divide)
  have A: "0 \<le> 58.1 * u" "58.1 * u \<le> 1162" using u by simp_all
  have B: "0 \<le> 0.07 * u ^ 3" "0.07 * u ^ 3 \<le> 560" using u3 by simp_all
  have C: "0 \<le> 0.000086 * u ^ 5" "0.000086 * u ^ 5 \<le> 276" using u5 by simp_all
  have "- 720 \<le> 58.1 * u - 0.07 * u ^ 3 + 0.000086 * u ^ 5"
       "58.1 * u - 0.07 * u ^ 3 + 0.000086 * u ^ 5 \<le> 1800"
    using A B C by linarith+
  then show ?thesis unfolding c by simp
qed

lemma refraction_low:
  assumes a: "- (23 / 40) < a" "a \<le> 5"
  shows "- 3 \<le> getRefractionCorrection a \<and> getRefractionCorrection a \<le> 3"
proof -
  have a5: "\<bar>a\<bar> \<le> 5" using a by (simp add: abs_le_iff)
  have "\<bar>a * (711 / 1000)\<bar> \<le> 5 * (711 / 1000)" using a5 by (intro abs_mult_bound) simp_all
  then have q1: "\<bar>- (1279 / 100) + a * (711 / 1000)\<bar> \<le> 17" by linarith
  have "\<bar>a * (- (1279 / 100) + a * (711 / 1000))\<bar> \<le> 5 * 17" using a5 q1 by (rule abs_mult_bound)
  then have q2: "\<bar>517 / 5 + a * (- (1279 / 100) + a * (711 / 1000))\<bar> \<le> 190" by linarith
  have "\<bar>a * (517 / 5 + a * (- (1279 / 100) + a * (711 / 1000)))\<bar> \<le> 5 * 190"
    using a5 q2 by (rule abs_mult_bound)
  then have q3: "\<bar>- (2591 / 5) + a * (517 / 5 + a * (- (1279 / 100) + a * (711 / 1000)))\<bar> \<le> 1500"
    by linarith
  have "\<bar>a * (- (2591 / 5) + a * (517 / 5 + a * (- (1279 / 100) + a * (711 / 1000))))\<bar> \<le> 5 * 1500"
    using a5 q3 by (rule abs_mult_bound)
  then have "\<bar>1735 + a * (- (2591 / 5) + a * (517 / 5 + a * (- (1279 / 100) + a * (711 / 1000))))\<bar>
      \<le> 10800"
    by linarith
  then have "\<bar>(1735 + a * (- (2591 / 5) + a * (517 / 5 + a * (- (1279 / 100) + a * (711 / 1000)))))
      / 3600\<bar> \<le> 3"
    by simp
  moreover have "getRefractionCorrection a =
      (1735 + a * (- (2591 / 5) + a * (517 / 5 + a * (- (1279 / 100) + a * (711 / 1000))))) / 3600"
    using a by (simp add: getRefractionCorrection_def)
  ultimately show ?thesis by linarith
qed

lemma refraction_below:
  assumes a: "- 90 \<le> a" "a \<le> - (23 / 40)"
  shows "0 \<le> getRefractionCorrection a \<and> getRefractionCorrection a \<le> 1"
proof (cases "a = - 90")
  case True
  have "toRadians (- 90) = - (pi / 2)" by (simp add: toRadians_def)
  then have "tanDeg (- 90) = tan (- (pi / 2))" by (simp only: tanDeg_def)
  then have "tanDeg (- 90) = 0" by (simp only: tan_minus tan_pi_half)
  then show ?thesis using True by (simp add: getRefractionCorrection_def)
next
  case False
  define t where "t = tan (toRadians (- a))"
  have x1: "319 / 50000 \<le> toRadians (- a)"
  proof -
    define y where "y = (- a) * pi"
    have "(23 / 40) * 2 \<le> y" unfolding y_def using a pi_ge_two by (intro mult_mono) simp_all
    moreover have "toRadians (- a) = y / 180" by (simp add: toRadians_def y_def)
    ultimately show ?thesis by simp
  qed
  have x2: "toRadians (- a) < pi / 2"
  proof -
    define y where "y = (- a) * pi"
    have "- a < 90" using a False by simp
    then have "y < 90 * pi" unfolding y_def by (intro mult_strict_right_mono) simp_all
    moreover have "toRadians (- a) = y / 180" by (simp add: toRadians_def y_def)
    ultimately show ?thesis by simp
  qed
  have "(319 / 50000 :: real) - (319 / 50000) ^ 3 / 6 - (319 / 50000) ^ 4 / 24 \<le> t"
    unfolding t_def using x1 x2 by (intro tan_lower) simp_all
  moreover have "(3 / 500 :: real) \<le> 319 / 50000 - (319 / 50000) ^ 3 / 6 - (319 / 50000) ^ 4 / 24"
    by (simp add: power_divide)
  ultimately have t: "3 / 500 \<le> t" by linarith
  then have tp: "0 < t" by linarith
  have "tanDeg a = - t" by (simp add: tanDeg_def t_def)
  define v where "v = (10387 / 500) / t"
  have c: "getRefractionCorrection a = v / 3600"
    using a \<open>tanDeg a = - t\<close> by (simp add: getRefractionCorrection_def v_def)
  have "(10387 / 500) / t \<le> (10387 / 500) / (3 / 500)" using t by (intro divide_left_mono) simp_all
  then have "v \<le> 3600" by (simp add: v_def)
  moreover have "0 < v" using tp by (simp add: v_def)
  ultimately show ?thesis unfolding c by simp
qed

lemma refraction_range:
  assumes "- 90 \<le> a" "a \<le> 90"
  shows "- 90 \<le> a + getRefractionCorrection a \<and> a + getRefractionCorrection a \<le> 90"
proof -
  consider "85 < a" | "5 < a" "a \<le> 85" | "- (23 / 40) < a" "a \<le> 5" | "a \<le> - (23 / 40)"
    by linarith
  then show ?thesis
  proof cases
    case 1
    then show ?thesis using assms by (simp add: getRefractionCorrection_def)
  next
    case 2
    then show ?thesis using refraction_mid[of a] by linarith
  next
    case 3
    then show ?thesis using refraction_low[of a] by linarith
  next
    case 4
    then show ?thesis using refraction_below[of a] assms by linarith
  qed
qed

text \<open>
  The ranges of C1 in exact arithmetic: for every latitude, longitude and instant the
  position of \<open>calculateSunPosition\<close> has its azimuth in \<open>[0, 360)\<close>, its altitude, which is
  the geometric altitude plus the refraction correction, in \<open>[-90, 90]\<close>, and its zenith
  equal to 90 minus that altitude. The quotient \<open>cosAz\<close> is clamped before the arc cosine
  is taken, so the bound on the azimuth holds whatever its value. The bound on the
  altitude rests on \<open>sinAlt\<close> lying in \<open>[-1, 1]\<close>, which is true of the exact value and not
  of every double: with the sun at the zenith the source can compute
  \<open>1.0000000000000002\<close>, and then \<open>Math.asin\<close> and with it azimuth, altitude and zenith are
  NaN. The statement is one about the formulas, not about every run of the source.
\<close>

lemma calculateSunPosition_ranges:
  "0 \<le> azimuth (calculateSunPosition la lo date) \<and>
   azimuth (calculateSunPosition la lo date) < 360 \<and>
   - 90 \<le> altitude (calculateSunPosition la lo date) \<and>
   altitude (calculateSunPosition la lo date) \<le> 90 \<and>
   zenith (calculateSunPosition la lo date) = 90 - altitude (calculateSunPosition la lo date)"
proof -
  define jd where "jd = getJulianDay date"
  define coords where "coords = getSolarCoordinates jd"
  define T where "T = getJulianCentury jd"
  define hourAngle where "hourAngle =
    js_rem (js_rem (280.46061837 + 360.98564736629 * (jd - 2451545.0)
                   + T * T * (0.000387933 - T / 38710000)) 360 + lo + 360) 360
      - rightAscension coords * 15"
  define sinAlt where "sinAlt = sin (toRadians la) * sin (toRadians (declination coords))
    + cos (toRadians la) * cos (toRadians (declination coords)) * cos (toRadians hourAngle)"
  define alt where "alt = toDegrees (arcsin sinAlt)"
  define cosAz where "cosAz = (sin (toRadians (declination coords)) - sin (toRadians la) * sinAlt)
     / (cos (toRadians la) * cos (arcsin sinAlt))"
  define az0 where "az0 = toDegrees (arccos (max (- 1) (min 1 cosAz)))"
  define az where "az = (if sin (toRadians hourAngle) > 0 then 360 - az0 else az0)"
  have alt_eq: "altitude (calculateSunPosition la lo date) = alt + getRefractionCorrection alt"
    and zen_eq: "zenith (calculateSunPosition la lo date) = 90 - (alt + getRefractionCorrection alt)"
    and az_eq: "azimuth (calculateSunPosition la lo date) = js_rem (az + 360) 360"
    unfolding calculateSunPosition_def Let_def az_def az0_def cosAz_def alt_def sinAlt_def
      hourAngle_def T_def coords_def jd_def by simp_all
  have "\<bar>sinAlt\<bar> \<le> 1" unfolding sinAlt_def by (rule sinAlt_bounds)
  then have "- 90 \<le> alt \<and> alt \<le> 90" unfolding alt_def by (rule toDegrees_arcsin_range)
  then have r: "- 90 \<le> alt + getRefractionCorrection alt \<and> alt + getRefractionCorrection alt \<le> 90"
    using refraction_range[of alt] by simp
  have "0 \<le> az0 \<and> az0 \<le> 180" unfolding az0_def by (rule toDegrees_arccos_clamped)
  then have "0 \<le> az + 360" by (simp add: az_def)
  then have a: "0 \<le> js_rem (az + 360) 360 \<and> js_rem (az + 360) 360 < 360"
    by (intro js_rem_range) simp_all
  show ?thesis using r a by (simp add: alt_eq zen_eq az_eq)
qed

lemma calculateSunPosition_ranges_witness:
  "0 \<le> azimuth (calculateSunPosition 0 0 1710936000000) \<and>
   azimuth (calculateSunPosition 0 0 1710936000000) < 360 \<and>
   - 90 \<le> altitude (calculateSunPosition 0 0 1710936000000) \<and>
   altitude (calculateSunPosition 0 0 1710936000000) \<le> 90 \<and>
   zenith (calculateSunPosition 0 0 1710936000000) + altitude (calculateSunPosition 0 0 1710936000000)
     = 90"
  using calculateSunPosition_ranges[of 0 0 1710936000000] by simp

section \<open>The antimeridian pass on a route\<close>

lemma pass_lon_0:
  "0 < length ws \<Longrightarrow> lon (handleAntimeridianCrossing ws ! 0) = lon (ws ! 0)"
  by (simp add: handleAntimeridianCrossing_0)

lemma pass_lon_Suc:
  "Suc j < length ws \<Longrightarrow>
   lon (handleAntimeridianCrossing ws ! Suc j) =
     adjustLon (lon (handleAntimeridianCrossing ws ! j)) (lon (ws ! Suc j))"
  using handleAntimeridianCrossing_nth[of "Suc j" ws] by simp

text \<open>Longitudes that pairwise differ by at most 180 are left as they are.\<close>

lemma pass_narrow:
  assumes "\<And>i j. i < length ws \<Longrightarrow> j < length ws \<Longrightarrow> \<bar>lon (ws ! i) - lon (ws ! j)\<bar> \<le> 180"
  shows "j < length ws \<Longrightarrow> lon (handleAntimeridianCrossing ws ! j) = lon (ws ! j)"
proof (induction j)
  case 0
  then show ?case by (simp add: pass_lon_0)
next
  case (Suc j)
  then have "lon (handleAntimeridianCrossing ws ! j) = lon (ws ! j)" by simp
  moreover have "\<bar>lon (ws ! Suc j) - lon (ws ! j)\<bar> \<le> 180" using assms[of "Suc j" j] Suc.prems by simp
  ultimately show ?case using Suc.prems by (simp add: pass_lon_Suc adjustLon_def abs_le_iff)
qed

text \<open>
  Longitudes in \<open>[-180, 180]\<close> that fall into a high group (at least \<open>h0\<close>) and a low group
  (at most \<open>l0\<close>) 180 or more apart: the pass moves a low one up or a high one down by 360,
  never the other way round.
\<close>

lemma pass_split:
  assumes hl: "l0 \<le> 0" "0 \<le> h0" "180 \<le> h0 - l0"
    and r: "\<And>j. j < length ws \<Longrightarrow> - 180 \<le> lon (ws ! j) \<and> lon (ws ! j) \<le> 180 \<and>
              (h0 \<le> lon (ws ! j) \<or> lon (ws ! j) \<le> l0)"
  shows "j < length ws \<Longrightarrow>
     (lon (handleAntimeridianCrossing ws ! j) = lon (ws ! j) \<or>
      (lon (handleAntimeridianCrossing ws ! j) = lon (ws ! j) + 360 \<and> lon (ws ! j) \<le> l0) \<or>
      (lon (handleAntimeridianCrossing ws ! j) = lon (ws ! j) - 360 \<and> h0 \<le> lon (ws ! j))) \<and>
     (1 \<le> j \<longrightarrow> \<bar>lon (handleAntimeridianCrossing ws ! j)
                     - lon (handleAntimeridianCrossing ws ! (j - 1))\<bar> \<le> 180)"
proof (induction j)
  case 0
  then show ?case by (simp add: pass_lon_0)
next
  case (Suc j)
  define c where "c = lon (handleAntimeridianCrossing ws ! j)"
  define p where "p = lon (ws ! j)"
  define q where "q = lon (ws ! Suc j)"
  have inv: "c = p \<or> (c = p + 360 \<and> p \<le> l0) \<or> (c = p - 360 \<and> h0 \<le> p)"
    using Suc unfolding c_def p_def by simp
  have pr: "- 180 \<le> p" "p \<le> 180" "h0 \<le> p \<or> p \<le> l0"
    using r[of j] Suc.prems unfolding p_def by simp_all
  have qr: "- 180 \<le> q" "q \<le> 180" "h0 \<le> q \<or> q \<le> l0"
    using r[of "Suc j"] Suc.prems unfolding q_def by simp_all
  have n: "lon (handleAntimeridianCrossing ws ! Suc j) = adjustLon c q"
    using Suc.prems by (simp add: pass_lon_Suc c_def q_def)
  have "(adjustLon c q = q \<or> (adjustLon c q = q + 360 \<and> q \<le> l0) \<or>
         (adjustLon c q = q - 360 \<and> h0 \<le> q)) \<and> \<bar>adjustLon c q - c\<bar> \<le> 180"
    using inv pr qr hl unfolding adjustLon_def by (auto simp: abs_le_iff)
  then show ?case unfolding n by (simp add: c_def q_def)
qed

section \<open>Directions of vectors in a half plane\<close>

lemma sin_nonneg_cases:
  fixes x :: real
  assumes "0 \<le> sin x" "- (2 * pi) < x" "x < 2 * pi"
  shows "(0 \<le> x \<and> x \<le> pi) \<or> x \<le> - pi"
proof (rule ccontr)
  assume "\<not> ?thesis"
  then consider "- pi < x" "x < 0" | "pi < x" by linarith
  then show False
  proof cases
    case 1
    then have "0 < sin (- x)" by (intro sin_gt_zero) simp_all
    then show False using assms(1) by simp
  next
    case 2
    then have "sin x < 0" using assms(3) by (intro sin_lt_zero)
    then show False using assms(1) by simp
  qed
qed

lemma atan2_zero_zero [simp]: "atan2 0 0 = 0"
  by (simp add: atan2_def)

lemma atan2_half_plane:
  assumes nz: "x \<noteq> 0 \<or> y \<noteq> 0" and d: "- pi < d" "d \<le> pi"
    and side: "0 \<le> cos d * y - sin d * x"
  shows "(d \<le> 0 \<longrightarrow> d \<le> atan2 y x \<and> atan2 y x \<le> d + pi) \<and>
         (0 < d \<longrightarrow> d \<le> atan2 y x \<or> atan2 y x \<le> d - pi)"
proof -
  define R where "R = sqrt (x\<^sup>2 + y\<^sup>2)"
  define \<rho> where "\<rho> = atan2 y x"
  have Rp: "0 < R" unfolding R_def using nz by (auto simp: sum_power2_gt_zero_iff)
  have x: "x = R * cos \<rho>" and y: "y = R * sin \<rho>"
    using Rp cos_atan2[OF nz] sin_atan2[OF nz] by (simp_all add: R_def \<rho>_def)
  have "cos d * y - sin d * x = R * sin (\<rho> - d)"
    by (simp add: sin_diff algebra_simps) (simp add: x y algebra_simps)
  then have "0 \<le> R * sin (\<rho> - d)" using side by simp
  then have s: "0 \<le> sin (\<rho> - d)" using Rp by (simp add: zero_le_mult_iff)
  have b: "- pi < \<rho>" "\<rho> \<le> pi" unfolding \<rho>_def by (simp_all add: atan2_gt_minus_pi atan2_le_pi)
  have "(0 \<le> \<rho> - d \<and> \<rho> - d \<le> pi) \<or> \<rho> - d \<le> - pi"
    using s b d by (intro sin_nonneg_cases) linarith+
  then show ?thesis using b d unfolding \<rho>_def by linarith
qed

text \<open>Vectors on one line through the origin: their directions differ by at most \<open>pi\<close>.\<close>

lemma atan2_on_line:
  assumes "\<exists>t. x = t * cos \<eta> \<and> y = t * sin \<eta>" "\<exists>t. x' = t * cos \<eta> \<and> y' = t * sin \<eta>"
  shows "\<bar>atan2 y x - atan2 y' x'\<bar> \<le> pi"
proof -
  obtain y0 where y0: "- pi < y0" "y0 \<le> pi" "sin y0 = sin \<eta>" "cos y0 = cos \<eta>"
    using sincos_principal_value[of \<eta>] by blast
  define d0 where "d0 = (if y0 \<le> 0 then y0 else y0 - pi)"
  have d0: "- pi < d0" "d0 \<le> 0" using y0 by (auto simp: d0_def)
  have sc: "(sin d0 = sin \<eta> \<and> cos d0 = cos \<eta>) \<or> (sin d0 = - sin \<eta> \<and> cos d0 = - cos \<eta>)"
    using y0 by (auto simp: d0_def sin_diff cos_diff)
  have in_range: "d0 \<le> atan2 v u \<and> atan2 v u \<le> d0 + pi"
    if "\<exists>t. u = t * cos \<eta> \<and> v = t * sin \<eta>" for u v
  proof (cases "u = 0 \<and> v = 0")
    case True
    then show ?thesis using d0 by simp
  next
    case False
    from that obtain t where t: "u = t * cos \<eta>" "v = t * sin \<eta>" by blast
    have "cos d0 * v - sin d0 * u = 0" using sc by (auto simp: t)
    then show ?thesis
      using atan2_half_plane[of u v d0] False d0 by auto
  qed
  show ?thesis using in_range[OF assms(1)] in_range[OF assms(2)] by linarith
qed

text \<open>
  Non-negative combinations of two directions \<open>l1\<close> and \<open>l2\<close> that are not on one line:
  either all their directions differ by at most \<open>pi\<close>, or they split at some \<open>d\<close> into a
  group at or above \<open>d\<close> and a group at or below \<open>d - pi\<close>.
\<close>

lemma atan2_in_cone:
  fixes A B :: "'i \<Rightarrow> real"
  assumes S: "sin (l2 - l1) \<noteq> 0"
    and AB: "\<And>i. 0 \<le> A i \<and> 0 \<le> B i \<and> (A i \<noteq> 0 \<or> B i \<noteq> 0)"
  defines "\<rho> \<equiv> \<lambda>i. atan2 (A i * sin l1 + B i * sin l2) (A i * cos l1 + B i * cos l2)"
  shows "(\<forall>i j. \<bar>\<rho> i - \<rho> j\<bar> \<le> pi) \<or>
         (\<exists>d. 0 < d \<and> d \<le> pi \<and> (\<forall>i. d \<le> \<rho> i \<or> \<rho> i \<le> d - pi))"
proof -
  define l where "l = (if 0 < sin (l2 - l1) then l1 else l2)"
  obtain d where d: "- pi < d" "d \<le> pi" "sin d = sin l" "cos d = cos l"
    using sincos_principal_value[of l] by blast
  have cross1: "cos l1 * (A i * sin l1 + B i * sin l2) - sin l1 * (A i * cos l1 + B i * cos l2)
      = B i * sin (l2 - l1)" for i
    by (simp add: sin_diff algebra_simps)
  have cross2: "cos l2 * (A i * sin l1 + B i * sin l2) - sin l2 * (A i * cos l1 + B i * cos l2)
      = - (A i * sin (l2 - l1))" for i
    by (simp add: sin_diff algebra_simps)
  have nz: "A i * cos l1 + B i * cos l2 \<noteq> 0 \<or> A i * sin l1 + B i * sin l2 \<noteq> 0" for i
  proof (rule ccontr)
    assume "\<not> ?thesis"
    then have "B i * sin (l2 - l1) = 0" "A i * sin (l2 - l1) = 0"
      using cross1[of i] cross2[of i] by simp_all
    then show False using S AB[of i] by auto
  qed
  have side: "0 \<le> cos d * (A i * sin l1 + B i * sin l2) - sin d * (A i * cos l1 + B i * cos l2)"
    for i
  proof (cases "0 < sin (l2 - l1)")
    case True
    then have "0 \<le> B i * sin (l2 - l1)" using AB[of i] by simp
    then show ?thesis using True cross1[of i] d by (simp add: l_def)
  next
    case False
    then have "sin (l2 - l1) < 0" using S by simp
    then have "0 \<le> - (A i * sin (l2 - l1))" using AB[of i] by (simp add: mult_nonneg_nonpos)
    then show ?thesis using False cross2[of i] d by (simp add: l_def)
  qed
  have hp: "(d \<le> 0 \<longrightarrow> d \<le> \<rho> i \<and> \<rho> i \<le> d + pi) \<and> (0 < d \<longrightarrow> d \<le> \<rho> i \<or> \<rho> i \<le> d - pi)" for i
    unfolding \<rho>_def using atan2_half_plane[OF nz[of i] d(1,2) side[of i]] .
  show ?thesis
  proof (cases "d \<le> 0")
    case True
    have "\<bar>\<rho> i - \<rho> j\<bar> \<le> pi" for i j using hp[of i] hp[of j] True by linarith
    then show ?thesis by blast
  next
    case False
    then have "0 < d \<and> d \<le> pi \<and> (\<forall>i. d \<le> \<rho> i \<or> \<rho> i \<le> d - pi)" using hp d by auto
    then show ?thesis by blast
  qed
qed

lemma atan2_first_quadrant: "0 \<le> y \<Longrightarrow> 0 \<le> x \<Longrightarrow> atan2 y x \<le> pi / 2"
  using arctan_ubound[of "y / x"] by (auto simp: atan2_def)

lemma haversine_le_one:
  assumes "- 90 \<le> lat1" "lat1 \<le> 90" "- 90 \<le> lat2" "lat2 \<le> 90"
  shows "haversine lat1 lon1 lat2 lon2 \<le> 1"
proof -
  define p1 where "p1 = toRadians lat1"
  define p2 where "p2 = toRadians lat2"
  define q where "q = sin (toRadians (lon2 - lon1) / 2) * sin (toRadians (lon2 - lon1) / 2)"
  have d: "toRadians (lat2 - lat1) = p2 - p1"
    by (simp add: toRadians_def p1_def p2_def algebra_simps diff_divide_distrib)
  have cc: "0 \<le> cos p1 * cos p2"
    unfolding p1_def p2_def using assms by (simp add: cos_lat_nonneg)
  have q1: "q \<le> 1"
  proof -
    have "q = (sin (toRadians (lon2 - lon1) / 2))\<^sup>2" by (simp add: q_def power2_eq_square)
    also have "\<dots> \<le> 1" using abs_sin_le_one[of "toRadians (lon2 - lon1) / 2"]
      by (simp add: abs_square_le_1)
    finally show ?thesis .
  qed
  have "2 * ((p2 - p1) / 2) = p2 - p1" by simp
  then have "cos (p2 - p1) = 1 - 2 * (sin ((p2 - p1) / 2))\<^sup>2"
    using cos_double_sin[of "(p2 - p1) / 2"] by (simp only:)
  then have s: "sin ((p2 - p1) / 2) * sin ((p2 - p1) / 2) = (1 - cos (p2 - p1)) / 2"
    by (simp add: power2_eq_square)
  have "cos p1 * cos p2 * q \<le> cos p1 * cos p2 * 1" using q1 cc by (rule mult_left_mono)
  then have "haversine lat1 lon1 lat2 lon2 \<le> (1 - cos (p2 - p1)) / 2 + cos p1 * cos p2"
    unfolding haversine_def d p1_def[symmetric] p2_def[symmetric] s
    by (simp add: q_def mult.assoc)
  also have "\<dots> = (1 + cos (p1 + p2)) / 2" by (simp add: cos_diff cos_add field_simps)
  also have "\<dots> \<le> 1" using cos_le_one[of "p1 + p2"] by simp
  finally show ?thesis .
qed

lemma angularDistance_range:
  assumes "- 90 \<le> lat p1" "lat p1 \<le> 90" "- 90 \<le> lat p2" "lat p2 \<le> 90"
  shows "0 \<le> angularDistance p1 p2 \<and> angularDistance p1 p2 \<le> pi"
proof -
  have a: "0 \<le> haversine (lat p1) (lon p1) (lat p2) (lon p2)"
       "haversine (lat p1) (lon p1) (lat p2) (lon p2) \<le> 1"
    using assms by (simp_all add: haversine_nonneg haversine_le_one)
  have "angularDistance p1 p2 =
      2 * atan2 (sqrt (haversine (lat p1) (lon p1) (lat p2) (lon p2)))
                (sqrt (1 - haversine (lat p1) (lon p1) (lat p2) (lon p2)))"
    by (simp add: angularDistance_def calculateDistance_haversine EARTH_RADIUS_KM_def)
  moreover have "0 \<le> atan2 (sqrt (haversine (lat p1) (lon p1) (lat p2) (lon p2)))
                (sqrt (1 - haversine (lat p1) (lon p1) (lat p2) (lon p2)))"
    using a by (intro atan2_nonneg) simp
  moreover have "atan2 (sqrt (haversine (lat p1) (lon p1) (lat p2) (lon p2)))
                (sqrt (1 - haversine (lat p1) (lon p1) (lat p2) (lon p2))) \<le> pi / 2"
    using a by (intro atan2_first_quadrant) simp_all
  ultimately show ?thesis by simp
qed

text \<open>The two weights of the interpolation formula, as HOL computes them.\<close>

lemma weight_nonneg:
  fixes f \<delta> :: real
  assumes "0 \<le> f" "f \<le> 1" "0 \<le> \<delta>" "\<delta> \<le> pi"
  shows "0 \<le> sin (f * \<delta>) / sin \<delta>"
proof -
  have "f * \<delta> \<le> 1 * \<delta>" using assms by (intro mult_right_mono) simp_all
  then have "0 \<le> sin (f * \<delta>)" using assms by (intro sin_ge_zero) simp_all
  moreover have "0 \<le> sin \<delta>" using assms by (intro sin_ge_zero)
  ultimately show ?thesis by simp
qed

lemma weights_not_both_zero:
  fixes f \<delta> :: real
  assumes "0 \<le> f" "f \<le> 1" "0 \<le> \<delta>" "\<delta> \<le> pi" "sin \<delta> \<noteq> 0"
  shows "sin ((1 - f) * \<delta>) / sin \<delta> \<noteq> 0 \<or> sin (f * \<delta>) / sin \<delta> \<noteq> 0"
proof (rule ccontr)
  assume "\<not> ?thesis"
  then have z: "sin ((1 - f) * \<delta>) = 0" "sin (f * \<delta>) = 0" using assms(5) by simp_all
  have dl: "\<delta> < pi" using assms(4,5) by (cases "\<delta> = pi") simp_all
  have "f * \<delta> \<le> 1 * \<delta>" using assms by (intro mult_right_mono) simp_all
  moreover have "0 \<le> f * \<delta>" using assms by simp
  ultimately have "\<bar>f * \<delta>\<bar> < pi" using dl by (simp add: abs_less_iff)
  then have 1: "f * \<delta> = 0" using z(2) sin_zero_pi_iff[of "f * \<delta>"] by simp
  have "(1 - f) * \<delta> \<le> 1 * \<delta>" using assms by (intro mult_right_mono) simp_all
  moreover have "0 \<le> (1 - f) * \<delta>" using assms by simp
  ultimately have "\<bar>(1 - f) * \<delta>\<bar> < pi" using dl by (simp add: abs_less_iff)
  then have 2: "(1 - f) * \<delta> = 0" using z(1) sin_zero_pi_iff[of "(1 - f) * \<delta>"] by simp
  from 1 2 have "\<delta> = 0" by auto
  then show False using assms(5) by simp
qed

lemma intermediatePoint_lon:
  assumes "\<not> angularDistance p1 p2 < 0.00001"
  shows "lon (intermediatePoint p1 p2 f) =
     toDegrees (atan2
       (sin ((1 - f) * angularDistance p1 p2) / sin (angularDistance p1 p2) * cos (toRadians (lat p1))
           * sin (toRadians (lon p1))
        + sin (f * angularDistance p1 p2) / sin (angularDistance p1 p2) * cos (toRadians (lat p2))
           * sin (toRadians (lon p2)))
       (sin ((1 - f) * angularDistance p1 p2) / sin (angularDistance p1 p2) * cos (toRadians (lat p1))
           * cos (toRadians (lon p1))
        + sin (f * angularDistance p1 p2) / sin (angularDistance p1 p2) * cos (toRadians (lat p2))
           * cos (toRadians (lon p2))))"
  using assms by (simp add: intermediatePoint_def Let_def angularDistance_def)

lemma toDegrees_abs_le: "\<bar>x - y\<bar> \<le> pi \<Longrightarrow> \<bar>toDegrees x - toDegrees y\<bar> \<le> 180"
proof -
  assume a: "\<bar>x - y\<bar> \<le> pi"
  have "toDegrees x - toDegrees y = (x - y) * (180 / pi)"
    by (simp add: toDegrees_def diff_divide_distrib algebra_simps)
  then have "\<bar>toDegrees x - toDegrees y\<bar> = \<bar>x - y\<bar> * \<bar>180 / pi\<bar>" by (simp only: abs_mult)
  then have "\<bar>toDegrees x - toDegrees y\<bar> = \<bar>x - y\<bar> * (180 / pi)" by simp
  also have "\<dots> \<le> pi * (180 / pi)" using a by (intro mult_right_mono) simp_all
  finally show ?thesis by simp
qed

lemma toDegrees_mono: "x \<le> y \<Longrightarrow> toDegrees x \<le> toDegrees y"
  by (simp add: toDegrees_def divide_right_mono)

lemma toDegrees_pi [simp]: "toDegrees pi = 180"
  by (simp add: toDegrees_def)

lemma toDegrees_diff: "toDegrees (x - y) = toDegrees x - toDegrees y"
  by (simp add: toDegrees_def diff_divide_distrib algebra_simps)

lemma pass_deltas_narrow:
  assumes "\<And>i j. i < length ws \<Longrightarrow> j < length ws \<Longrightarrow> \<bar>lon (ws ! i) - lon (ws ! j)\<bar> \<le> 180"
    and "Suc i < length ws"
  shows "\<bar>lon (handleAntimeridianCrossing ws ! Suc i) - lon (handleAntimeridianCrossing ws ! i)\<bar> \<le> 180"
  using pass_narrow[of ws "Suc i"] pass_narrow[of ws i] assms by simp

lemma pass_deltas_split:
  assumes "l0 \<le> 0" "0 \<le> h0" "180 \<le> h0 - l0"
    and "\<And>j. j < length ws \<Longrightarrow> - 180 \<le> lon (ws ! j) \<and> lon (ws ! j) \<le> 180 \<and>
              (h0 \<le> lon (ws ! j) \<or> lon (ws ! j) \<le> l0)"
    and "Suc i < length ws"
  shows "\<bar>lon (handleAntimeridianCrossing ws ! Suc i) - lon (handleAntimeridianCrossing ws ! i)\<bar> \<le> 180"
  using pass_split[OF assms(1-4), of "Suc i"] assms(5) by simp

text \<open>The raw longitudes of a route, before the pass, in the two shapes the pass handles.\<close>

lemma route_longitudes:
  assumes lats: "- 90 \<le> lat orig" "lat orig \<le> 90" "- 90 \<le> lat dest" "lat dest \<le> 90"
    and n: "1 \<le> n"
  defines "r \<equiv> \<lambda>j. lon (intermediatePoint orig dest (real j / real n))"
  shows "(\<forall>i\<le>n. \<forall>j\<le>n. \<bar>r i - r j\<bar> \<le> 180) \<or>
         (\<exists>h0 l0. l0 \<le> 0 \<and> 0 \<le> h0 \<and> 180 \<le> h0 - l0 \<and>
            (\<forall>j\<le>n. - 180 \<le> r j \<and> r j \<le> 180 \<and> (h0 \<le> r j \<or> r j \<le> l0)))"
proof (cases "angularDistance orig dest < 0.00001")
  case True
  then have "r j = lon orig" for j by (simp add: r_def intermediatePoint_near)
  then show ?thesis by simp
next
  case False
  define \<delta> where "\<delta> = angularDistance orig dest"
  define c1 where "c1 = cos (toRadians (lat orig))"
  define c2 where "c2 = cos (toRadians (lat dest))"
  define l1 where "l1 = toRadians (lon orig)"
  define l2 where "l2 = toRadians (lon dest)"
  define A where "A = (\<lambda>j. sin ((1 - real (min j n) / real n) * \<delta>) / sin \<delta> * c1)"
  define B where "B = (\<lambda>j. sin (real (min j n) / real n * \<delta>) / sin \<delta> * c2)"
  define \<rho> where "\<rho> = (\<lambda>j. atan2 (A j * sin l1 + B j * sin l2) (A j * cos l1 + B j * cos l2))"
  have dr: "0 \<le> \<delta>" "\<delta> \<le> pi" unfolding \<delta>_def using angularDistance_range[OF lats] by simp_all
  have c: "0 \<le> c1" "0 \<le> c2" unfolding c1_def c2_def using lats by (simp_all add: cos_lat_nonneg)
  have f: "0 \<le> real (min j n) / real n" "real (min j n) / real n \<le> 1" for j
    using n by (simp_all add: divide_le_eq)
  have f': "0 \<le> 1 - real (min j n) / real n" "1 - real (min j n) / real n \<le> 1" for j
    using f[of j] by simp_all
  have AB: "0 \<le> A j" "0 \<le> B j" for j
    unfolding A_def B_def using weight_nonneg[OF f[of j] dr] weight_nonneg[OF f'[of j] dr] c
    by (simp_all only: mult_nonneg_nonneg)
  have r: "r j = toDegrees (\<rho> j)" if "j \<le> n" for j
    using that False unfolding r_def \<rho>_def A_def B_def \<delta>_def c1_def c2_def l1_def l2_def
    by (simp add: intermediatePoint_lon min_absorb1)
  have rr: "- 180 \<le> toDegrees (\<rho> j) \<and> toDegrees (\<rho> j) \<le> 180" for j
  proof -
    have "- pi \<le> \<rho> j" "\<rho> j \<le> pi"
      unfolding \<rho>_def using atan2_gt_minus_pi atan2_le_pi by (simp_all add: less_imp_le)
    then have "toDegrees (- pi) \<le> toDegrees (\<rho> j)" "toDegrees (\<rho> j) \<le> toDegrees pi"
      by (simp_all only: toDegrees_mono)
    then show ?thesis by (simp add: toDegrees_def)
  qed
  have narrow: "\<forall>i\<le>n. \<forall>j\<le>n. \<bar>r i - r j\<bar> \<le> 180" if "\<And>i j. \<bar>\<rho> i - \<rho> j\<bar> \<le> pi"
    using that r by (simp add: toDegrees_abs_le)
  show ?thesis
  proof (cases "c1 = 0 \<or> c2 = 0 \<or> sin \<delta> = 0 \<or> sin (l2 - l1) = 0")
    case True
    have "\<exists>\<eta>. \<forall>j. \<exists>t. A j * cos l1 + B j * cos l2 = t * cos \<eta> \<and>
                        A j * sin l1 + B j * sin l2 = t * sin \<eta>"
    proof -
      consider "c1 = 0" | "c2 = 0 \<or> sin \<delta> = 0" | "sin (l2 - l1) = 0" using True by blast
      then show ?thesis
      proof cases
        case 1
        then have "A j = 0" for j by (simp add: A_def)
        then show ?thesis by (intro exI[of _ l2]) auto
      next
        case 2
        then have "B j = 0" for j by (auto simp: B_def)
        then show ?thesis by (intro exI[of _ l1]) auto
      next
        case 3
        have "l2 = l1 + (l2 - l1)" by simp
        then have "cos l2 = cos l1 * cos (l2 - l1) - sin l1 * sin (l2 - l1)"
                  "sin l2 = sin l1 * cos (l2 - l1) + cos l1 * sin (l2 - l1)"
          using cos_add[of l1 "l2 - l1"] sin_add[of l1 "l2 - l1"] by simp_all
        then have e: "cos l2 = cos (l2 - l1) * cos l1" "sin l2 = cos (l2 - l1) * sin l1"
          using 3 by simp_all
        have "A j * cos l1 + B j * cos l2 = (A j + B j * cos (l2 - l1)) * cos l1 \<and>
              A j * sin l1 + B j * sin l2 = (A j + B j * cos (l2 - l1)) * sin l1" for j
          unfolding e by (simp add: algebra_simps)
        then show ?thesis by blast
      qed
    qed
    then obtain \<eta> where "\<And>j. \<exists>t. A j * cos l1 + B j * cos l2 = t * cos \<eta> \<and>
                        A j * sin l1 + B j * sin l2 = t * sin \<eta>" by blast
    then have "\<bar>\<rho> i - \<rho> j\<bar> \<le> pi" for i j
      unfolding \<rho>_def by (intro atan2_on_line[of _ \<eta>]) 
    then show ?thesis using narrow by blast
  next
    case False
    then have nz: "c1 \<noteq> 0" "c2 \<noteq> 0" "sin \<delta> \<noteq> 0" "sin (l2 - l1) \<noteq> 0" by simp_all
    have "A j \<noteq> 0 \<or> B j \<noteq> 0" for j
      using weights_not_both_zero[OF f[of j] dr nz(3)] nz(1,2) by (simp add: A_def B_def)
    then have "\<And>j. 0 \<le> A j \<and> 0 \<le> B j \<and> (A j \<noteq> 0 \<or> B j \<noteq> 0)" using AB by simp
    from atan2_in_cone[OF nz(4) this]
    have "(\<forall>i j. \<bar>\<rho> i - \<rho> j\<bar> \<le> pi) \<or>
         (\<exists>d. 0 < d \<and> d \<le> pi \<and> (\<forall>i. d \<le> \<rho> i \<or> \<rho> i \<le> d - pi))"
      unfolding \<rho>_def .
    then show ?thesis
    proof
      assume "\<forall>i j. \<bar>\<rho> i - \<rho> j\<bar> \<le> pi"
      then show ?thesis using narrow by blast
    next
      assume "\<exists>d. 0 < d \<and> d \<le> pi \<and> (\<forall>i. d \<le> \<rho> i \<or> \<rho> i \<le> d - pi)"
      then obtain d where d: "0 < d" "d \<le> pi" "\<And>i. d \<le> \<rho> i \<or> \<rho> i \<le> d - pi" by blast
      have h: "0 \<le> toDegrees d" "toDegrees d \<le> 180"
        using d toDegrees_mono[of 0 d] toDegrees_mono[of d pi] by (simp_all add: toDegrees_def)
      have s: "toDegrees d \<le> toDegrees (\<rho> j) \<or> toDegrees (\<rho> j) \<le> toDegrees d - 180" for j
        using d(3)[of j] toDegrees_mono[of d "\<rho> j"] toDegrees_mono[of "\<rho> j" "d - pi"]
        by (auto simp: toDegrees_diff)
      have "toDegrees d - 180 \<le> 0 \<and> 0 \<le> toDegrees d \<and> 180 \<le> toDegrees d - (toDegrees d - 180) \<and>
            (\<forall>j\<le>n. - 180 \<le> r j \<and> r j \<le> 180 \<and> (toDegrees d \<le> r j \<or> r j \<le> toDegrees d - 180))"
        using h s rr r by simp
      then show ?thesis by blast
    qed
  qed
qed

text \<open>
  The continuity of C9 in exact arithmetic: for latitudes in \<open>[-90, 90]\<close> and a point count
  \<open>n \<ge> 1\<close>, every two consecutive waypoints that \<open>generateWaypoints\<close> returns, the
  antimeridian pass done, have longitudes that differ by at most 180 in either direction.
  (The longitudes themselves may leave \<open>[-180, 180]\<close>: from \<open>(0, 170)\<close> to \<open>(0, -170)\<close> the
  route ends at longitude 190.) For antipodal and nearly antipodal pairs this is a
  statement about the formulas only: the source can compute a haversine term above 1
  there, and then every longitude is NaN and no difference lies in \<open>[-180, 180]\<close>.
\<close>

lemma generateWaypoints_continuous:
  assumes n: "1 \<le> n"
    and lats: "- 90 \<le> lat orig" "lat orig \<le> 90" "- 90 \<le> lat dest" "lat dest \<le> 90"
  shows "\<exists>ws. generateWaypoints orig dest n = Some ws \<and> length ws = n + 1 \<and>
     (\<forall>i<n. - 180 \<le> lon (ws ! (i + 1)) - lon (ws ! i) \<and>
             lon (ws ! (i + 1)) - lon (ws ! i) \<le> 180)"
proof -
  define tot where "tot = calculateDistance (lat orig) (lon orig) (lat dest) (lon dest)"
  define raw where "raw = rawWaypoints orig dest n tot"
  have gen: "generateWaypoints orig dest n = Some (handleAntimeridianCrossing raw)"
    using n by (simp add: generateWaypoints_eq raw_def tot_def)
  have rlen: "length raw = n + 1" by (simp add: raw_def rawWaypoints_length)
  have rl: "lon (raw ! j) = lon (intermediatePoint orig dest (real j / real n))" if "j \<le> n" for j
    using that by (simp add: raw_def rawWaypoints_nth)
  have "\<bar>lon (handleAntimeridianCrossing raw ! Suc i) - lon (handleAntimeridianCrossing raw ! i)\<bar>
      \<le> 180" if i: "i < n" for i
  proof -
    from route_longitudes[OF lats n]
    consider (narrow) "\<forall>i\<le>n. \<forall>j\<le>n. \<bar>lon (intermediatePoint orig dest (real i / real n))
                 - lon (intermediatePoint orig dest (real j / real n))\<bar> \<le> 180"
      | (split) h0 l0 where "l0 \<le> 0" "0 \<le> h0" "180 \<le> h0 - l0"
          "\<forall>j\<le>n. - 180 \<le> lon (intermediatePoint orig dest (real j / real n)) \<and>
                 lon (intermediatePoint orig dest (real j / real n)) \<le> 180 \<and>
                 (h0 \<le> lon (intermediatePoint orig dest (real j / real n)) \<or>
                  lon (intermediatePoint orig dest (real j / real n)) \<le> l0)"
      by blast
    then show ?thesis
    proof cases
      case narrow
      show ?thesis
        using narrow rl rlen i by (intro pass_deltas_narrow) simp_all
    next
      case split
      show ?thesis
        using split rl rlen i by (intro pass_deltas_split[of l0 h0]) simp_all
    qed
  qed
  then have "\<forall>i<n. - 180 \<le> lon (handleAntimeridianCrossing raw ! (i + 1))
                       - lon (handleAntimeridianCrossing raw ! i) \<and>
                   lon (handleAntimeridianCrossing raw ! (i + 1))
                       - lon (handleAntimeridianCrossing raw ! i) \<le> 180"
    by (simp add: abs_le_iff) (metis add.commute neg_le_iff_le minus_diff_eq)
  then show ?thesis using gen rlen by (simp add: handleAntimeridianCrossing_length)
qed

lemma generateWaypoints_continuous_witness:
  "generateWaypoints \<lparr>lat = 0, lon = 170\<rparr> \<lparr>lat = 0, lon = - 170\<rparr> 1 \<noteq> None \<and>
   - 180 \<le> lon (the (generateWaypoints \<lparr>lat = 0, lon = 170\<rparr> \<lparr>lat = 0, lon = - 170\<rparr> 1) ! 1)
           - lon (the (generateWaypoints \<lparr>lat = 0, lon = 170\<rparr> \<lparr>lat = 0, lon = - 170\<rparr> 1) ! 0) \<and>
   lon (the (generateWaypoints \<lparr>lat = 0, lon = 170\<rparr> \<lparr>lat = 0, lon = - 170\<rparr> 1) ! 1)
           - lon (the (generateWaypoints \<lparr>lat = 0, lon = 170\<rparr> \<lparr>lat = 0, lon = - 170\<rparr> 1) ! 0)
     \<le> 180"
  using generateWaypoints_continuous[of 1 "\<lparr>lat = 0, lon = 170\<rparr>" "\<lparr>lat = 0, lon = - 170\<rparr>"]
  by auto

section \<open>Numerical bounds\<close>

lemma Maclaurin_cos_bound:
  fixes x :: real
  shows "\<bar>cos x - (\<Sum>m<n. cos_coeff m * x ^ m)\<bar> \<le> \<bar>x\<bar> ^ n / fact n"
proof -
  obtain t where t: "cos x = (\<Sum>m<n. cos_coeff m * x ^ m) + (cos (t + 1/2 * real n * pi) / fact n) * x ^ n"
    using Maclaurin_cos_expansion[of x n] by blast
  have "\<bar>(cos (t + 1/2 * real n * pi) / fact n) * x ^ n\<bar> = \<bar>cos (t + 1/2 * real n * pi)\<bar> * (\<bar>x\<bar> ^ n / fact n)"
    by (simp add: abs_mult power_abs)
  also have "\<dots> \<le> 1 * (\<bar>x\<bar> ^ n / fact n)"
    by (intro mult_right_mono) simp_all
  finally show ?thesis using t by simp
qed

lemma cos_poly_8:
  fixes x :: real
  shows "(\<Sum>m<8. cos_coeff m * x ^ m) = 1 - x\<^sup>2 / 2 + x ^ 4 / 24 - x ^ 6 / 720"
proof -
  have "{..<8::nat} = {0, 1, 2, 3, 4, 5, 6, 7}" by auto
  then show ?thesis by (simp add: cos_coeff_def fact_numeral)
qed

lemma cos_bounds_8:
  fixes x :: real
  shows "1 - x\<^sup>2 / 2 + x ^ 4 / 24 - x ^ 6 / 720 - \<bar>x\<bar> ^ 8 / 40320 \<le> cos x"
    and "cos x \<le> 1 - x\<^sup>2 / 2 + x ^ 4 / 24 - x ^ 6 / 720 + \<bar>x\<bar> ^ 8 / 40320"
proof -
  have "(fact 8 :: real) = 40320" by (simp add: fact_numeral)
  then have "\<bar>cos x - (1 - x\<^sup>2 / 2 + x ^ 4 / 24 - x ^ 6 / 720)\<bar> \<le> \<bar>x\<bar> ^ 8 / 40320"
    using Maclaurin_cos_bound[of x 8] by (simp add: cos_poly_8)
  then show "1 - x\<^sup>2 / 2 + x ^ 4 / 24 - x ^ 6 / 720 - \<bar>x\<bar> ^ 8 / 40320 \<le> cos x"
    and "cos x \<le> 1 - x\<^sup>2 / 2 + x ^ 4 / 24 - x ^ 6 / 720 + \<bar>x\<bar> ^ 8 / 40320"
    by linarith+
qed

lemma sin_poly_7:
  fixes x :: real
  shows "(\<Sum>m<7. sin_coeff m * x ^ m) = x - x ^ 3 / 6 + x ^ 5 / 120"
proof -
  have "{..<7::nat} = {0, 1, 2, 3, 4, 5, 6}" by auto
  then show ?thesis by (simp add: sin_coeff_def fact_numeral)
qed

lemma sin_bounds_7:
  fixes x :: real
  shows "x - x ^ 3 / 6 + x ^ 5 / 120 - \<bar>x\<bar> ^ 7 / 5040 \<le> sin x"
    and "sin x \<le> x - x ^ 3 / 6 + x ^ 5 / 120 + \<bar>x\<bar> ^ 7 / 5040"
proof -
  have f: "(fact 7 :: real) = 5040" by (simp add: fact_numeral)
  have "\<bar>sin x - (x - x ^ 3 / 6 + x ^ 5 / 120)\<bar> \<le> \<bar>x\<bar> ^ 7 / 5040"
    using Maclaurin_sin_bound[of x 7] unfolding sin_poly_7 f by simp
  then show "x - x ^ 3 / 6 + x ^ 5 / 120 - \<bar>x\<bar> ^ 7 / 5040 \<le> sin x"
    and "sin x \<le> x - x ^ 3 / 6 + x ^ 5 / 120 + \<bar>x\<bar> ^ 7 / 5040"
    by linarith+
qed

text \<open>\<open>pi\<close> to three decimals, from the sign of the cosine on either side of \<open>pi / 2\<close>.\<close>

lemma pi_lower: "3.141 < pi"
proof -
  have "(7072 / 10000 :: real) \<le> cos (0.78525 :: real)"
    using cos_bounds_8(1)[of "0.78525"] by (simp add: power_divide)
  then have "(7072 / 10000 :: real)\<^sup>2 \<le> (cos (0.78525 :: real))\<^sup>2"
    by (intro power_mono) simp_all
  moreover have "cos (1.5705 :: real) = 2 * (cos (0.78525 :: real))\<^sup>2 - 1"
    using cos_double_cos[of "0.78525 :: real"] by simp
  ultimately have "0 < cos (1.5705 :: real)"
    by (simp add: power_divide)
  then have "\<not> pi / 2 \<le> 1.5705"
  proof -
    assume c: "0 < cos (1.5705 :: real)"
    show ?thesis
    proof
      assume "pi / 2 \<le> 1.5705"
      moreover have "(1.5705 :: real) \<le> pi" using pi_ge_two by simp
      ultimately have "cos 1.5705 \<le> cos (pi / 2)"
        by (intro cos_monotone_0_pi_le) simp_all
      then show False using c by simp
    qed
  qed
  then show ?thesis by simp
qed

lemma pi_upper: "pi < 3.142"
proof -
  have c: "cos (1.571 :: real) < 0"
    using cos_bounds_8(2)[of "1.571"] by (simp add: power_divide)
  have "\<not> 1.571 \<le> pi / 2"
  proof
    assume "1.571 \<le> pi / 2"
    then have "0 \<le> cos (1.571 :: real)" by (intro cos_ge_zero) simp_all
    then show False using c by simp
  qed
  then show ?thesis by simp
qed

section \<open>Solar noon and solar midnight as instants\<close>

lemma hour_aligned:
  fixes k :: int
  assumes "t = 3600000 * k"
  shows "Day t * msPerDay + HourFromTime t * 3600000 = t"
    and "MinFromTime t = 0" and "SecFromTime t = 0" and "msFromTime t = 0"
proof -
  have d: "Day t = k div 24"
  proof -
    have "(3600000 * k) div (3600000 * 24) = k div 24" by (rule div_mult_mult1) simp
    then show ?thesis using assms by (simp add: Day_def msPerDay_def)
  qed
  have h: "HourFromTime t = k mod 24" using assms by (simp add: HourFromTime_def)
  have "Day t * msPerDay + HourFromTime t * 3600000 = 3600000 * k"
    unfolding d h msPerDay_def using div_mult_mod_eq[of k 24] by linarith
  then show "Day t * msPerDay + HourFromTime t * 3600000 = t"
    using assms by simp
  have "t = 60000 * (60 * k)" using assms by simp
  then have "t div 60000 = 60 * k" by simp
  then show "MinFromTime t = 0" by (simp add: MinFromTime_def)
  have "t = 1000 * (3600 * k)" using assms by simp
  then have "t div 1000 = 60 * (60 * k)" by simp
  then show "SecFromTime t = 0" by (simp add: SecFromTime_def)
  have "t = 1000 * (3600 * k)" using assms by simp
  then show "msFromTime t = 0" by (simp add: msFromTime_def)
qed

lemma minute_aligned:
  fixes k :: int
  assumes "t = 60000 * k"
  shows "Day t * msPerDay + HourFromTime t * 3600000 + MinFromTime t * 60000 = t"
    and "SecFromTime t = 0" and "msFromTime t = 0"
proof -
  define q where "q = k div 60"
  have d: "Day t = q div 24"
  proof -
    have "(60000 * k) div (60000 * 1440) = k div 1440" by (rule div_mult_mult1) simp
    moreover have "k div 1440 = (k div 60) div 24"
      using zdiv_zmult2_eq[of 24 k 60] by simp
    ultimately show ?thesis using assms by (simp add: Day_def msPerDay_def q_def)
  qed
  have h: "HourFromTime t = q mod 24"
  proof -
    have "(60000 * k) div (60000 * 60) = k div 60" by (rule div_mult_mult1) simp
    then show ?thesis using assms by (simp add: HourFromTime_def q_def)
  qed
  have m: "MinFromTime t = k mod 60" using assms by (simp add: MinFromTime_def)
  have k: "60 * q + k mod 60 = k" unfolding q_def by simp
  have "Day t * msPerDay + HourFromTime t * 3600000 + MinFromTime t * 60000 = 60000 * k"
    unfolding d h m msPerDay_def using div_mult_mod_eq[of q 24] k by linarith
  then show "Day t * msPerDay + HourFromTime t * 3600000 + MinFromTime t * 60000 = t"
    using assms by simp
  have "t = 1000 * (60 * k)" using assms by simp
  then have "t div 1000 = 60 * k" by simp
  then show "SecFromTime t = 0" by (simp add: SecFromTime_def)
  have "t = 1000 * (60 * k)" using assms by simp
  then show "msFromTime t = 0" by (simp add: msFromTime_def)
qed

text \<open>
  The four setters of \<open>calculateSolarNoon\<close> on a date at 12:00:00.000 UTC of day \<open>d\<close>: the
  result is the start of that day plus the hours and the minutes given, whatever their
  signs and sizes.
\<close>

lemma noon_setters:
  fixes d h :: int and mins :: real
  assumes "date = d * msPerDay + 43200000"
  shows "setUTCMilliseconds 0 (setUTCSeconds 0 (setUTCMinutes mins (setUTCHours (of_int h) date)))
         = d * msPerDay + h * 3600000 + trunc mins * 60000"
proof -
  have dd: "Day date = d"
    using assms by (simp add: Day_def msPerDay_def)
  have "date = 1000 * (d * 86400 + 43200)" using assms by (simp add: msPerDay_def)
  then have ms: "msFromTime date = 0" by (simp add: msFromTime_def)
  have "date = 1000 * (60 * (d * 1440 + 720))" using assms by (simp add: msPerDay_def)
  then have "date div 1000 = 60 * (d * 1440 + 720)" by simp
  then have sec: "SecFromTime date = 0" by (simp add: SecFromTime_def)
  have "date = 60000 * (60 * (d * 24 + 12))" using assms by (simp add: msPerDay_def)
  then have "date div 60000 = 60 * (d * 24 + 12)" by simp
  then have mn: "MinFromTime date = 0" by (simp add: MinFromTime_def)
  define t1 where "t1 = setUTCHours (of_int h) date"
  have t1: "t1 = 3600000 * (24 * d + h)"
    by (simp add: t1_def setUTCHours_def MakeDate_def MakeTime_def dd ms sec mn msPerDay_def)
  define t2 where "t2 = setUTCMinutes mins t1"
  have "t2 = (Day t1 * msPerDay + HourFromTime t1 * 3600000) + trunc mins * 60000"
    using hour_aligned(3,4)[OF t1]
    by (simp add: t2_def setUTCMinutes_def MakeDate_def MakeTime_def)
  then have t2': "t2 = t1 + trunc mins * 60000"
    using hour_aligned(1)[OF t1] by simp
  then have t2: "t2 = 60000 * (60 * (24 * d + h) + trunc mins)" using t1 by simp
  define t3 where "t3 = setUTCSeconds 0 t2"
  have "t3 = Day t2 * msPerDay + HourFromTime t2 * 3600000 + MinFromTime t2 * 60000"
    using minute_aligned(3)[OF t2]
    by (simp add: t3_def setUTCSeconds_def MakeDate_def MakeTime_def trunc_def)
  then have t3: "t3 = t2" using minute_aligned(1)[OF t2] by simp
  have "setUTCMilliseconds 0 t3
        = Day t2 * msPerDay + HourFromTime t2 * 3600000 + MinFromTime t2 * 60000"
    using minute_aligned(2)[OF t2]
    by (simp add: t3 setUTCMilliseconds_def MakeDate_def MakeTime_def trunc_def)
  then have "setUTCMilliseconds 0 t3 = t2" using minute_aligned(1)[OF t2] by simp
  then show ?thesis
    unfolding t3_def t2_def t1_def using t2' t1 by (simp add: t2_def t1_def msPerDay_def)
qed

text \<open>The equation of time is at most 21 minutes, whatever the mean anomaly.\<close>

lemma equation_of_time_bound:
  fixes M :: real
  shows "\<bar>229.18 * (0.000075 + 0.001868 * cosDeg M - 0.032077 * sinDeg M
            - 0.014615 * cosDeg (2 * M) - 0.040849 * sinDeg (2 * M))\<bar> \<le> 21"
proof -
  have c1: "\<bar>cosDeg M\<bar> \<le> 1" and s1: "\<bar>sinDeg M\<bar> \<le> 1"
    and c2: "\<bar>cosDeg (2 * M)\<bar> \<le> 1" and s2: "\<bar>sinDeg (2 * M)\<bar> \<le> 1"
    by (simp_all add: cosDeg_def sinDeg_def)
  show ?thesis using c1 s1 c2 s2 by (simp add: abs_le_iff)
qed

lemma calculateSolarNoon_eq:
  fixes d :: int
  assumes "date = d * msPerDay + 43200000"
  shows "\<exists>e. \<bar>e\<bar> \<le> 7 / 20 \<and>
           calculateSolarNoon la lo date
           = d * msPerDay + \<lfloor>12 - lo / 15 + e\<rfloor> * 3600000
             + trunc (js_rem (12 - lo / 15 + e) 1 * 60) * 60000"
proof -
  define M where "M = js_rem (357.52911 + getJulianCentury (getJulianDay date)
      * (35999.05029 - getJulianCentury (getJulianDay date) * 0.0001537)) 360"
  define eot where "eot = 229.18 * (0.000075 + 0.001868 * cosDeg M - 0.032077 * sinDeg M
            - 0.014615 * cosDeg (2 * M) - 0.040849 * sinDeg (2 * M))"
  have "\<bar>eot\<bar> \<le> 21" unfolding eot_def by (rule equation_of_time_bound)
  then have e: "\<bar>eot / 60\<bar> \<le> 7 / 20" by simp
  have "calculateSolarNoon la lo date
        = setUTCMilliseconds 0 (setUTCSeconds 0 (setUTCMinutes (js_rem (12 - lo / 15 + eot / 60) 1 * 60)
            (setUTCHours (of_int \<lfloor>12 - lo / 15 + eot / 60\<rfloor>) date)))"
    by (simp add: calculateSolarNoon_def Let_def eot_def M_def)
  then have "calculateSolarNoon la lo date
           = d * msPerDay + \<lfloor>12 - lo / 15 + eot / 60\<rfloor> * 3600000
             + trunc (js_rem (12 - lo / 15 + eot / 60) 1 * 60) * 60000"
    using noon_setters[OF assms] by simp
  then show ?thesis using e by blast
qed

lemma calculateSolarMidnight_eq:
  "calculateSolarMidnight la lo date = calculateSolarNoon la lo date + 43200000"
proof -
  have "real_of_int (calculateSolarNoon la lo date) + 12 * 3600 * 1000
        = of_int (calculateSolarNoon la lo date + 43200000)" by simp
  then show ?thesis
    unfolding calculateSolarMidnight_def newDate_def Let_def by (simp only: trunc_of_int)
qed

lemma js_rem_one: "\<bar>js_rem x 1\<bar> < 1" "0 \<le> x \<Longrightarrow> 0 \<le> js_rem x 1"
proof -
  show "\<bar>js_rem x 1\<bar> < 1"
    by (cases "0 \<le> x") (simp_all add: js_rem_def trunc_def, linarith+)
  show "0 \<le> x \<Longrightarrow> 0 \<le> js_rem x 1" using js_rem_range[of x 1] by simp
qed

text \<open>
  For any longitude, solar noon of a date at 12:00 UTC of day \<open>d\<close> lies within the days
  \<open>d - 1\<close> to \<open>d + 1\<close>, and solar midnight within the days \<open>d\<close> and \<open>d + 1\<close>.
\<close>

lemma calculateSolarNoon_window:
  fixes d :: int
  assumes date: "date = d * msPerDay + 43200000" and lo: "- 180 \<le> lo" "lo \<le> 180"
  shows "(d - 1) * msPerDay \<le> calculateSolarNoon la lo date"
    and "calculateSolarNoon la lo date < (d + 2) * msPerDay"
    and "(d - 1) * msPerDay \<le> calculateSolarMidnight la lo date"
    and "calculateSolarMidnight la lo date < (d + 2) * msPerDay"
proof -
  obtain e where e: "\<bar>e\<bar> \<le> 7 / 20"
    and n: "calculateSolarNoon la lo date
           = d * msPerDay + \<lfloor>12 - lo / 15 + e\<rfloor> * 3600000
             + trunc (js_rem (12 - lo / 15 + e) 1 * 60) * 60000"
    using calculateSolarNoon_eq[OF date] by blast
  define x where "x = 12 - lo / 15 + e"
  have x: "- 1 \<le> x" "x < 25" using e lo by (simp_all add: x_def abs_le_iff)
  define hh where "hh = \<lfloor>x\<rfloor>"
  define mm where "mm = trunc (js_rem x 1 * 60)"
  have h: "- 1 \<le> hh" "hh \<le> 24"
    unfolding hh_def using x by (simp_all add: le_floor_iff floor_le_iff)
  have "\<bar>js_rem x 1 * 60\<bar> \<le> 60" using js_rem_one(1)[of x] by simp
  then have "of_int (- 60) \<le> js_rem x 1 * 60" "js_rem x 1 * 60 \<le> of_int 60"
    by (simp_all add: abs_le_iff)
  then have m: "- 60 \<le> mm" "mm \<le> 60"
    unfolding mm_def using trunc_between[of "- 60" "js_rem x 1 * 60" 60] by simp_all
  have n': "calculateSolarNoon la lo date = d * 86400000 + hh * 3600000 + mm * 60000"
    using n by (simp add: x_def hh_def mm_def msPerDay_def)
  have mid: "calculateSolarMidnight la lo date = calculateSolarNoon la lo date + 43200000"
    by (rule calculateSolarMidnight_eq)
  show "(d - 1) * msPerDay \<le> calculateSolarNoon la lo date"
    unfolding n' msPerDay_def using h m by (simp add: left_diff_distrib distrib_right)
  show "calculateSolarNoon la lo date < (d + 2) * msPerDay"
    unfolding n' msPerDay_def using h m by (simp add: left_diff_distrib distrib_right)
  show "(d - 1) * msPerDay \<le> calculateSolarMidnight la lo date"
    unfolding mid n' msPerDay_def using h m by (simp add: left_diff_distrib distrib_right)
  show "calculateSolarMidnight la lo date < (d + 2) * msPerDay"
    unfolding mid n' msPerDay_def using h m by (simp add: left_diff_distrib distrib_right)
qed

section \<open>The Julian day of an instant\<close>

lemma day_fraction_range:
  "- (1 / 2) \<le> (of_int (HourFromTime t) - 12) / 24 + of_int (MinFromTime t) / 1440
       + of_int (SecFromTime t) / (86400 :: real)"
  "(of_int (HourFromTime t) - 12) / 24 + of_int (MinFromTime t) / 1440
       + of_int (SecFromTime t) / (86400 :: real) \<le> 1 / 2"
proof -
  define h where "h = HourFromTime t"
  define m where "m = MinFromTime t"
  define s where "s = SecFromTime t"
  have "0 \<le> h" "h \<le> 23" "0 \<le> m" "m \<le> 59" "0 \<le> s" "s \<le> 59"
    by (simp_all add: h_def m_def s_def HourFromTime_def MinFromTime_def SecFromTime_def
        zle_diff1_eq[symmetric, of _ 24] zle_diff1_eq[symmetric, of _ 60])
  then have r: "0 \<le> real_of_int h" "real_of_int h \<le> 23" "0 \<le> real_of_int m"
    "real_of_int m \<le> 59" "0 \<le> real_of_int s" "real_of_int s \<le> 59"
    by simp_all
  show "- (1 / 2) \<le> (of_int (HourFromTime t) - 12) / 24 + of_int (MinFromTime t) / 1440
       + of_int (SecFromTime t) / (86400 :: real)"
    unfolding h_def[symmetric] m_def[symmetric] s_def[symmetric] diff_divide_distrib
    using r by linarith
  show "(of_int (HourFromTime t) - 12) / 24 + of_int (MinFromTime t) / 1440
       + of_int (SecFromTime t) / (86400 :: real) \<le> 1 / 2"
    unfolding h_def[symmetric] m_def[symmetric] s_def[symmetric] diff_divide_distrib
    using r by linarith
qed

lemma minute_fraction_range:
  "0 \<le> of_int (MinFromTime t) / 1440 + of_int (SecFromTime t) / (86400 :: real)"
  "of_int (MinFromTime t) / 1440 + of_int (SecFromTime t) / (86400 :: real) \<le> 1 / 24"
proof -
  define m where "m = MinFromTime t"
  define s where "s = SecFromTime t"
  have "0 \<le> m" "m \<le> 59" "0 \<le> s" "s \<le> 59"
    by (simp_all add: m_def s_def MinFromTime_def SecFromTime_def
        zle_diff1_eq[symmetric, of _ 60])
  then have r: "0 \<le> real_of_int m" "real_of_int m \<le> 59" "0 \<le> real_of_int s" "real_of_int s \<le> 59"
    by simp_all
  show "0 \<le> of_int (MinFromTime t) / 1440 + of_int (SecFromTime t) / (86400 :: real)"
    unfolding m_def[symmetric] s_def[symmetric] using r by simp
  show "of_int (MinFromTime t) / 1440 + of_int (SecFromTime t) / (86400 :: real) \<le> 1 / 24"
    unfolding m_def[symmetric] s_def[symmetric] using r by linarith
qed

lemma Day_between:
  assumes "d * msPerDay \<le> t" "t < (d + 1) * msPerDay"
  shows "Day t = d"
proof -
  have "t = msPerDay * d + (t - d * msPerDay)" by simp
  moreover have "0 \<le> t - d * msPerDay" "t - d * msPerDay < msPerDay"
    using assms by (simp_all add: distrib_right)
  ultimately show ?thesis unfolding Day_def by (rule int_div_pos_eq)
qed

lemma Day_window:
  assumes "(d - 1) * msPerDay \<le> t" "t < (d + 2) * msPerDay"
  shows "Day t = d - 1 \<or> Day t = d \<or> Day t = d + 1"
proof -
  consider "t < d * msPerDay" | "d * msPerDay \<le> t" "t < (d + 1) * msPerDay"
    | "(d + 1) * msPerDay \<le> t" by linarith
  then show ?thesis
  proof cases
    case 1
    then show ?thesis using Day_between[of "d - 1" t] assms by simp
  next
    case 2
    then show ?thesis using Day_between[of d t] by simp
  next
    case 3
    then show ?thesis using Day_between[of "d + 1" t] assms by (simp add: add.commute)
  qed
qed

lemma Hour_between:
  assumes "d * msPerDay + h * 3600000 \<le> t" "t < d * msPerDay + (h + 1) * 3600000"
    and "0 \<le> h" "h < 24"
  shows "Day t = d" and "HourFromTime t = h"
proof -
  show "Day t = d" using assms by (intro Day_between) (simp_all add: msPerDay_def distrib_right)
  have "t = 3600000 * (24 * d + h) + (t - 3600000 * (24 * d + h))" by simp
  moreover have "0 \<le> t - 3600000 * (24 * d + h)" "t - 3600000 * (24 * d + h) < 3600000"
    using assms by (simp_all add: msPerDay_def distrib_right)
  ultimately have "t div 3600000 = 24 * d + h" by (rule int_div_pos_eq)
  then show "HourFromTime t = h" using assms by (simp add: HourFromTime_def)
qed

text \<open>The Julian day numbers of the days used below, by computation.\<close>

lemma civilFromDays_march: "civilFromDays 19799 = (2024, 3, 17)"
  by code_simp

lemma civilFromDays_june:
  "civilFromDays 19894 = (2024, 6, 20)" "civilFromDays 19895 = (2024, 6, 21)"
  "civilFromDays 19896 = (2024, 6, 22)"
  by code_simp+

lemma civilFromDays_december:
  "civilFromDays 20077 = (2024, 12, 20)" "civilFromDays 20078 = (2024, 12, 21)"
  "civilFromDays 20079 = (2024, 12, 22)"
  by code_simp+

lemma getJulianDay_march:
  "Day t = 19799 \<Longrightarrow>
   getJulianDay t = 2460387 + ((of_int (HourFromTime t) - 12) / 24 + of_int (MinFromTime t) / 1440
       + of_int (SecFromTime t) / 86400)"
  by (simp add: getJulianDay_def getUTCFullYear_def getUTCMonth_def getUTCDate_def
      getUTCHours_def getUTCMinutes_def getUTCSeconds_def civilFromDays_march Let_def)

lemma getJulianDay_june:
  "Day t = 19895 - 1 \<or> Day t = 19895 \<or> Day t = 19895 + 1 \<Longrightarrow>
   \<exists>J. 2460482 \<le> J \<and> J \<le> 2460484 \<and>
     getJulianDay t = J + ((of_int (HourFromTime t) - 12) / 24 + of_int (MinFromTime t) / 1440
       + of_int (SecFromTime t) / 86400)"
  by (auto simp add: getJulianDay_def getUTCFullYear_def getUTCMonth_def getUTCDate_def
      getUTCHours_def getUTCMinutes_def getUTCSeconds_def civilFromDays_june Let_def)

lemma getJulianDay_december:
  "Day t = 20078 - 1 \<or> Day t = 20078 \<or> Day t = 20078 + 1 \<Longrightarrow>
   \<exists>J. 2460665 \<le> J \<and> J \<le> 2460667 \<and>
     getJulianDay t = J + ((of_int (HourFromTime t) - 12) / 24 + of_int (MinFromTime t) / 1440
       + of_int (SecFromTime t) / 86400)"
  by (auto simp add: getJulianDay_def getUTCFullYear_def getUTCMonth_def getUTCDate_def
      getUTCHours_def getUTCMinutes_def getUTCSeconds_def civilFromDays_december Let_def)

lemma julian_century_june:
  assumes "(19895 - 1) * msPerDay \<le> t" "t < (19895 + 2) * msPerDay"
  shows "0.2446 \<le> getJulianCentury (getJulianDay t)" "getJulianCentury (getJulianDay t) \<le> 0.2448"
proof -
  obtain J where J: "2460482 \<le> J" "J \<le> 2460484"
     "getJulianDay t = J + ((of_int (HourFromTime t) - 12) / 24 + of_int (MinFromTime t) / 1440
       + of_int (SecFromTime t) / 86400)"
    using getJulianDay_june[OF Day_window[OF assms]] by blast
  have "2460481 \<le> getJulianDay t" "getJulianDay t \<le> 2460485"
    using J day_fraction_range[of t] by linarith+
  then show "0.2446 \<le> getJulianCentury (getJulianDay t)"
    "getJulianCentury (getJulianDay t) \<le> 0.2448"
    by (simp_all add: getJulianCentury_def)
qed

lemma julian_century_december:
  assumes "(20078 - 1) * msPerDay \<le> t" "t < (20078 + 2) * msPerDay"
  shows "0.2496 \<le> getJulianCentury (getJulianDay t)" "getJulianCentury (getJulianDay t) \<le> 0.2498"
proof -
  obtain J where J: "2460665 \<le> J" "J \<le> 2460667"
     "getJulianDay t = J + ((of_int (HourFromTime t) - 12) / 24 + of_int (MinFromTime t) / 1440
       + of_int (SecFromTime t) / 86400)"
    using getJulianDay_december[OF Day_window[OF assms]] by blast
  have "2460664 \<le> getJulianDay t" "getJulianDay t \<le> 2460668"
    using J day_fraction_range[of t] by linarith+
  then show "0.2496 \<le> getJulianCentury (getJulianDay t)"
    "getJulianCentury (getJulianDay t) \<le> 0.2498"
    by (simp_all add: getJulianCentury_def)
qed

lemma julian_day_march:
  assumes "19799 * msPerDay + h * 3600000 \<le> t" "t < 19799 * msPerDay + (h + 1) * 3600000"
    and "0 \<le> h" "h < 24"
  shows "2460387 + (of_int h - 12) / 24 \<le> getJulianDay t"
    "getJulianDay t \<le> 2460387 + (of_int h - 12) / 24 + 1 / 24"
proof -
  have d: "Day t = 19799" and hh: "HourFromTime t = h"
    using Hour_between[OF assms] by simp_all
  show "2460387 + (of_int h - 12) / 24 \<le> getJulianDay t"
    "getJulianDay t \<le> 2460387 + (of_int h - 12) / 24 + 1 / 24"
    unfolding getJulianDay_march[OF d] hh diff_divide_distrib
    using minute_fraction_range[of t] by linarith+
qed

section \<open>The ecliptic longitude of the sun\<close>

lemma js_rem_360:
  fixes k :: int
  assumes "360 * of_int k \<le> x" "x < 360 * of_int k + 360" "0 \<le> k"
  shows "js_rem x 360 = x - 360 * of_int k"
proof -
  have "of_int k \<le> x / 360" "x / 360 < of_int k + 1" using assms by simp_all
  then have f: "\<lfloor>x / 360\<rfloor> = k" by (simp add: floor_eq_iff)
  have "0 \<le> x / 360" using assms by simp
  then show ?thesis by (simp add: js_rem_def trunc_def f)
qed

lemma unit_scale:
  fixes T x :: real
  assumes "0 \<le> T" "T \<le> 1" "- a \<le> x" "x \<le> b" "0 \<le> a" "0 \<le> b"
  shows "- a \<le> T * x" and "T * x \<le> b"
proof -
  have "T * x \<le> T * b" using assms by (intro mult_left_mono) simp_all
  also have "\<dots> \<le> 1 * b" using assms by (intro mult_right_mono) simp_all
  finally show "T * x \<le> b" by simp
  have "T * a \<le> 1 * a" using assms by (intro mult_right_mono) simp_all
  moreover have "T * (- a) \<le> T * x" using assms by (intro mult_left_mono) simp_all
  ultimately show "- a \<le> T * x" by simp
qed

lemma growing_term:
  fixes T a b :: real
  assumes "0 \<le> Tl" "Tl \<le> T" "T \<le> Th" "Th \<le> 1" "0 \<le> a" "0 \<le> b"
  shows "Tl * a \<le> T * (a + T * b)" and "T * (a + T * b) \<le> Th * (a + b)"
proof -
  have T: "0 \<le> T" "T \<le> 1" using assms by linarith+
  have tb: "0 \<le> T * b" "T * b \<le> b"
    using mult_right_mono[of T 1 b] T assms by simp_all
  have "Tl * a \<le> T * a" using assms by (intro mult_right_mono) simp_all
  also have "\<dots> \<le> T * (a + T * b)" using T tb by (intro mult_left_mono) simp_all
  finally show "Tl * a \<le> T * (a + T * b)" .
  have "T * (a + T * b) \<le> T * (a + b)" using T tb by (intro mult_left_mono) simp_all
  also have "\<dots> \<le> Th * (a + b)" using assms by (intro mult_right_mono) simp_all
  finally show "T * (a + T * b) \<le> Th * (a + b)" .
qed

lemma slowing_term:
  fixes T a b :: real
  assumes "0 \<le> Tl" "Tl \<le> T" "T \<le> Th" "Th \<le> 1" "0 \<le> b" "b \<le> a"
  shows "Tl * (a - b) \<le> T * (a - T * b)" and "T * (a - T * b) \<le> Th * a"
proof -
  have T: "0 \<le> T" "T \<le> 1" using assms by linarith+
  have tb: "0 \<le> T * b" "T * b \<le> b"
    using mult_right_mono[of T 1 b] T assms by simp_all
  have "Tl * (a - b) \<le> T * (a - b)" using assms by (intro mult_right_mono) simp_all
  also have "\<dots> \<le> T * (a - T * b)" using T tb by (intro mult_left_mono) simp_all
  finally show "Tl * (a - b) \<le> T * (a - T * b)" .
  have "T * (a - T * b) \<le> T * a" using T tb by (intro mult_left_mono) simp_all
  also have "\<dots> \<le> Th * a" using assms by (intro mult_right_mono) simp_all
  finally show "T * (a - T * b) \<le> Th * a" .
qed

lemma abs_sinDeg [simp]: "\<bar>sinDeg x\<bar> \<le> 1"
  by (simp add: sinDeg_def)

lemma abs_cosDeg [simp]: "\<bar>cosDeg x\<bar> \<le> 1"
  by (simp add: cosDeg_def)

text \<open>
  The declination of \<open>getSolarCoordinates\<close> in this century: the arcsine of the product of
  the sines of an obliquity between 23.42 and 23.45 degrees and of a longitude that is the
  mean longitude plus the main term of the equation of centre, up to 0.031 degrees.
\<close>

lemma declination_form:
  fixes jd :: real
  defines "T \<equiv> getJulianCentury jd"
  assumes T: "0 \<le> T" "T \<le> 1"
  shows "\<exists>c1 r eps. 19097 / 10000 \<le> c1 \<and> c1 \<le> 1914602 / 1000000 \<and> \<bar>r\<bar> \<le> 31 / 1000
       \<and> 2342 / 100 \<le> eps \<and> eps \<le> 2345 / 100 \<and>
     declination (getSolarCoordinates jd)
     = asinDeg (sinDeg eps * sinDeg (js_rem (280.46646 + T * (36000.76983 + T * 0.0003032)) 360
         + c1 * sinDeg (js_rem (357.52911 + T * (35999.05029 - T * 0.0001537)) 360) + r))"
proof -
  define M where "M = js_rem (357.52911 + T * (35999.05029 - T * 0.0001537)) 360"
  define omega where "omega = 125.04 - 1934.136 * T"
  define c1 where "c1 = 1.914602 - T * (0.004817 + T * 0.000014)"
  define c2 where "c2 = 0.019993 - T * 0.000101"
  define p where "p = c2 * sinDeg (2 * M)"
  define q where "q = 0.000289 * sinDeg (3 * M)"
  define w where "w = 0.00478 * sinDeg omega"
  define r where "r = p + q - 0.00569 - w"
  define e0 where "e0 = T * (0.0130042 + T * (0.00000016 - T * 0.000000504))"
  define e1 where "e1 = 0.00256 * cosDeg omega"
  define eps where "eps = 23.439291 - e0 + e1"
  have "0 * (4817 / 1000000) \<le> T * (4817 / 1000000 + T * (14 / 1000000))"
    "T * (4817 / 1000000 + T * (14 / 1000000)) \<le> 1 * (4817 / 1000000 + 14 / 1000000)"
    using T by (intro growing_term[of 0 T 1]; simp)+
  then have c1: "19097 / 10000 \<le> c1" "c1 \<le> 1914602 / 1000000" by (simp_all add: c1_def)
  have "0 \<le> T * (101 / 1000000)" "T * (101 / 1000000) \<le> 1 * (101 / 1000000)"
    using T by (simp, intro mult_right_mono, simp_all)
  then have c2: "\<bar>c2\<bar> \<le> 19993 / 1000000" by (simp add: c2_def abs_le_iff)
  have p: "\<bar>p\<bar> \<le> 19993 / 1000000 * 1" unfolding p_def using c2 by (intro abs_mult_bound) simp_all
  have q: "\<bar>q\<bar> \<le> 289 / 1000000 * 1" unfolding q_def by (intro abs_mult_bound) simp_all
  have w: "\<bar>w\<bar> \<le> 478 / 100000 * 1" unfolding w_def by (intro abs_mult_bound) simp_all
  have "r = p + q - 569 / 100000 - w" by (simp add: r_def)
  then have r: "\<bar>r\<bar> \<le> 31 / 1000" using p q w by linarith
  have "0 \<le> T * (504 / 1000000000)" "T * (504 / 1000000000) \<le> 1 * (504 / 1000000000)"
    using T by (simp, intro mult_right_mono, simp_all)
  then have t1: "- (1 / 1000000) \<le> T * (504 / 1000000000)" "T * (504 / 1000000000) \<le> 1 / 1000000"
    by linarith+
  define u1 where "u1 = 16 / 100000000 - T * (504 / 1000000000)"
  have u1: "- (2 / 1000000) \<le> u1" "u1 \<le> 2 / 1000000" unfolding u1_def using t1 by linarith+
  have t2: "- (2 / 1000000) \<le> T * u1" "T * u1 \<le> 2 / 1000000"
    using unit_scale[OF T u1] by simp_all
  define u2 where "u2 = 130042 / 10000000 + T * u1"
  have u2: "- (14 / 1000) \<le> u2" "u2 \<le> 14 / 1000" unfolding u2_def using t2 by linarith+
  have t3: "- (14 / 1000) \<le> T * u2" "T * u2 \<le> 14 / 1000"
    using unit_scale[OF T u2] by simp_all
  have "0 \<le> u2" unfolding u2_def using t2 by linarith
  then have t4: "0 \<le> T * u2" using T by simp
  have "e0 = T * u2" by (simp add: e0_def u2_def u1_def)
  then have e0: "0 \<le> e0" "e0 \<le> 14 / 1000" using t3 t4 by simp_all
  have e1: "\<bar>e1\<bar> \<le> 256 / 100000 * 1" unfolding e1_def by (intro abs_mult_bound) simp_all
  have "eps = 23439291 / 1000000 - e0 + e1" by (simp add: eps_def)
  then have eps: "2342 / 100 \<le> eps" "eps \<le> 2345 / 100" using e0 e1 by linarith+
  have "declination (getSolarCoordinates jd)
     = asinDeg (sinDeg eps * sinDeg (js_rem (280.46646 + T * (36000.76983 + T * 0.0003032)) 360
         + c1 * sinDeg M + r))"
    by (simp add: getSolarCoordinates_def Let_def T_def eps_def e0_def e1_def r_def p_def q_def
        w_def c1_def c2_def omega_def M_def algebra_simps)
  then show ?thesis using c1 r eps unfolding M_def by blast
qed

section \<open>Sines of angles in degrees\<close>

lemma toRadians_between:
  assumes "0 \<le> d"
  shows "d * (3141 / 180000) \<le> toRadians d" and "toRadians d \<le> d * (3142 / 180000)"
proof -
  define y where "y = d * pi"
  have "d * (3141 / 1000) \<le> y" "y \<le> d * (3142 / 1000)"
    unfolding y_def using assms pi_lower pi_upper by (intro mult_left_mono; simp)+
  moreover have "toRadians d = y / 180" by (simp add: toRadians_def y_def)
  ultimately show "d * (3141 / 180000) \<le> toRadians d" and "toRadians d \<le> d * (3142 / 180000)"
    by linarith+
qed

lemma sinDeg_mono:
  assumes "- 90 \<le> x" "x \<le> y" "y \<le> 90"
  shows "sinDeg x \<le> sinDeg y"
proof -
  have "- (pi / 2) \<le> toRadians x" using toRadians_range[of x] assms by simp
  moreover have "toRadians y \<le> pi / 2" using toRadians_range[of y] assms by simp
  moreover have "toRadians x \<le> toRadians y"
    using assms by (simp add: toRadians_def divide_right_mono)
  ultimately show ?thesis unfolding sinDeg_def by (intro sin_monotone_2pi_le)
qed

lemma sinDeg_between:
  fixes a u b :: real
  defines "xl \<equiv> a * (3141 / 180000)" and "xh \<equiv> b * (3142 / 180000)"
  assumes "0 \<le> a" "a \<le> u" "u \<le> b" "b \<le> 89"
  shows "xl - xl ^ 3 / 6 + xl ^ 5 / 120 - xl ^ 7 / 5040 \<le> sinDeg u"
    and "sinDeg u \<le> xh - xh ^ 3 / 6 + xh ^ 5 / 120 + xh ^ 7 / 5040"
proof -
  have xl: "0 \<le> xl" "xl \<le> toRadians a"
    unfolding xl_def using assms toRadians_between(1)[of a] by simp_all
  have "toRadians a \<le> pi / 2" using toRadians_range[of a] assms by simp
  then have "sin xl \<le> sin (toRadians a)"
    using xl pi_ge_two by (intro sin_monotone_2pi_le) linarith+
  moreover have "sinDeg a \<le> sinDeg u" using assms by (intro sinDeg_mono) simp_all
  moreover have "xl - xl ^ 3 / 6 + xl ^ 5 / 120 - \<bar>xl\<bar> ^ 7 / 5040 \<le> sin xl"
    by (rule sin_bounds_7)
  moreover have "\<bar>xl\<bar> = xl" using xl by simp
  ultimately show "xl - xl ^ 3 / 6 + xl ^ 5 / 120 - xl ^ 7 / 5040 \<le> sinDeg u"
    by (simp add: sinDeg_def)
  have b0: "0 \<le> b" using assms by linarith
  have "b * (3142 / 180000) \<le> 89 * (3142 / 180000)"
    using assms by (intro mult_right_mono) simp_all
  then have xh: "0 \<le> xh" "toRadians b \<le> xh" "xh \<le> pi / 2"
    unfolding xh_def using b0 toRadians_between(2)[of b] pi_lower by simp_all
  have "- (pi / 2) \<le> toRadians b" using toRadians_range[of b] assms by simp
  then have "sin (toRadians b) \<le> sin xh" using xh by (intro sin_monotone_2pi_le)
  moreover have "sinDeg u \<le> sinDeg b" using assms by (intro sinDeg_mono) simp_all
  moreover have "sin xh \<le> xh - xh ^ 3 / 6 + xh ^ 5 / 120 + \<bar>xh\<bar> ^ 7 / 5040"
    by (rule sin_bounds_7)
  moreover have "\<bar>xh\<bar> = xh" using xh by simp
  ultimately show "sinDeg u \<le> xh - xh ^ 3 / 6 + xh ^ 5 / 120 + xh ^ 7 / 5040"
    by (simp add: sinDeg_def)
qed

lemma sinDeg_minus [simp]: "sinDeg (- x) = - sinDeg x"
  by (simp add: sinDeg_def)

lemma sinDeg_supplement: "sinDeg (180 - x) = sinDeg x"
proof -
  have "toRadians (180 - x) = pi - toRadians x"
    by (simp add: toRadians_def diff_divide_distrib algebra_simps)
  then show ?thesis by (simp add: sinDeg_def)
qed

lemma sinDeg_explement: "sinDeg (360 - x) = - sinDeg x"
proof -
  have "toRadians (360 - x) = 2 * pi - toRadians x"
    by (simp add: toRadians_def diff_divide_distrib algebra_simps)
  then show ?thesis by (simp add: sinDeg_def sin_diff)
qed

lemma asinDeg_sinDeg: "- 90 \<le> x \<Longrightarrow> x \<le> 90 \<Longrightarrow> asinDeg (sinDeg x) = x"
  using toRadians_range[of x] by (simp add: asinDeg_def sinDeg_def arcsin_sin)

lemma asinDeg_mono: "- 1 \<le> x \<Longrightarrow> x \<le> y \<Longrightarrow> y \<le> 1 \<Longrightarrow> asinDeg x \<le> asinDeg y"
  unfolding asinDeg_def by (intro toDegrees_mono arcsin_le_arcsin)

lemma asinDeg_ge:
  assumes "- 90 \<le> a" "a \<le> 90" "sinDeg a \<le> s" "s \<le> 1"
  shows "a \<le> asinDeg s"
proof -
  have "- 1 \<le> sinDeg a" by (simp add: sinDeg_def)
  then have "asinDeg (sinDeg a) \<le> asinDeg s" using assms by (intro asinDeg_mono)
  then show ?thesis using assms by (simp add: asinDeg_sinDeg)
qed

lemma asinDeg_le:
  assumes "- 90 \<le> a" "a \<le> 90" "s \<le> sinDeg a" "- 1 \<le> s"
  shows "asinDeg s \<le> a"
proof -
  have "sinDeg a \<le> 1" by (simp add: sinDeg_def)
  then have "asinDeg s \<le> asinDeg (sinDeg a)" using assms by (intro asinDeg_mono)
  then show ?thesis using assms by (simp add: asinDeg_sinDeg)
qed

lemma sinDeg_obliquity:
  assumes "2342 / 100 \<le> eps" "eps \<le> 2345 / 100"
  shows "3973 / 10000 \<le> sinDeg eps" and "sinDeg eps \<le> 3981 / 10000"
proof -
  show "3973 / 10000 \<le> sinDeg eps"
    using sinDeg_between(1)[of "2342 / 100" eps "2345 / 100"] assms by (simp add: power_divide)
  show "sinDeg eps \<le> 3981 / 10000"
    using sinDeg_between(2)[of "2342 / 100" eps "2345 / 100"] assms by (simp add: power_divide)
qed

lemma sinDeg_23: "sinDeg 23 \<le> 391 / 1000"
  using sinDeg_between(2)[of 23 23 23] by (simp add: power_divide)

lemma sinDeg_near_90:
  assumes "84 \<le> x" "x \<le> 96"
  shows "994 / 1000 \<le> sinDeg x"
proof -
  have 84: "994 / 1000 \<le> sinDeg 84"
    using sinDeg_between(1)[of 84 84 84] by (simp add: power_divide)
  show ?thesis
  proof (cases "x \<le> 90")
    case True
    then have "sinDeg 84 \<le> sinDeg x" using assms by (intro sinDeg_mono) simp_all
    then show ?thesis using 84 by linarith
  next
    case False
    then have "sinDeg 84 \<le> sinDeg (180 - x)" using assms by (intro sinDeg_mono) simp_all
    then show ?thesis using 84 by (simp add: sinDeg_supplement)
  qed
qed

section \<open>The declination of the sun on three days of 2024\<close>

lemma mean_longitude_between:
  fixes T Tl Th :: real and k :: int
  assumes T: "0 \<le> Tl" "Tl \<le> T" "T \<le> Th" "Th \<le> 1"
    and k: "360 * of_int k \<le> 28046646 / 100000 + Tl * (3600076983 / 100000)"
      "28046646 / 100000 + Th * (3600076983 / 100000 + 3032 / 10000000) < 360 * of_int k + 360"
      "0 \<le> k"
  shows "28046646 / 100000 + Tl * (3600076983 / 100000) - 360 * of_int k
         \<le> js_rem (280.46646 + T * (36000.76983 + T * 0.0003032)) 360"
    and "js_rem (280.46646 + T * (36000.76983 + T * 0.0003032)) 360
         \<le> 28046646 / 100000 + Th * (3600076983 / 100000 + 3032 / 10000000) - 360 * of_int k"
proof -
  define x where "x = 28046646 / 100000 + T * (3600076983 / 100000 + T * (3032 / 10000000))"
  have g: "Tl * (3600076983 / 100000) \<le> T * (3600076983 / 100000 + T * (3032 / 10000000))"
    "T * (3600076983 / 100000 + T * (3032 / 10000000))
     \<le> Th * (3600076983 / 100000 + 3032 / 10000000)"
    using T by (intro growing_term; simp)+
  have x: "28046646 / 100000 + Tl * (3600076983 / 100000) \<le> x"
    "x \<le> 28046646 / 100000 + Th * (3600076983 / 100000 + 3032 / 10000000)"
    unfolding x_def using g by linarith+
  have "js_rem x 360 = x - 360 * of_int k"
    using x k by (intro js_rem_360) linarith+
  moreover have "280.46646 + T * (36000.76983 + T * 0.0003032) = x" by (simp add: x_def)
  ultimately have e: "js_rem (280.46646 + T * (36000.76983 + T * 0.0003032)) 360
      = x - 360 * of_int k" by simp
  show "28046646 / 100000 + Tl * (3600076983 / 100000) - 360 * of_int k
         \<le> js_rem (280.46646 + T * (36000.76983 + T * 0.0003032)) 360"
    unfolding e using x by linarith
  show "js_rem (280.46646 + T * (36000.76983 + T * 0.0003032)) 360
         \<le> 28046646 / 100000 + Th * (3600076983 / 100000 + 3032 / 10000000) - 360 * of_int k"
    unfolding e using x by linarith
qed

lemma mean_anomaly_between:
  fixes T Tl Th :: real and k :: int
  assumes T: "0 \<le> Tl" "Tl \<le> T" "T \<le> Th" "Th \<le> 1"
    and k: "360 * of_int k \<le> 35752911 / 100000 + Tl * (3599905029 / 100000 - 1537 / 10000000)"
      "35752911 / 100000 + Th * (3599905029 / 100000) < 360 * of_int k + 360"
      "0 \<le> k"
  shows "35752911 / 100000 + Tl * (3599905029 / 100000 - 1537 / 10000000) - 360 * of_int k
         \<le> js_rem (357.52911 + T * (35999.05029 - T * 0.0001537)) 360"
    and "js_rem (357.52911 + T * (35999.05029 - T * 0.0001537)) 360
         \<le> 35752911 / 100000 + Th * (3599905029 / 100000) - 360 * of_int k"
proof -
  define x where "x = 35752911 / 100000 + T * (3599905029 / 100000 - T * (1537 / 10000000))"
  have g: "Tl * (3599905029 / 100000 - 1537 / 10000000)
      \<le> T * (3599905029 / 100000 - T * (1537 / 10000000))"
    "T * (3599905029 / 100000 - T * (1537 / 10000000)) \<le> Th * (3599905029 / 100000)"
    using T by (intro slowing_term; simp)+
  have x: "35752911 / 100000 + Tl * (3599905029 / 100000 - 1537 / 10000000) \<le> x"
    "x \<le> 35752911 / 100000 + Th * (3599905029 / 100000)"
    unfolding x_def using g by linarith+
  have "js_rem x 360 = x - 360 * of_int k"
    using x k by (intro js_rem_360) linarith+
  moreover have "357.52911 + T * (35999.05029 - T * 0.0001537) = x" by (simp add: x_def)
  ultimately have e: "js_rem (357.52911 + T * (35999.05029 - T * 0.0001537)) 360
      = x - 360 * of_int k" by simp
  show "35752911 / 100000 + Tl * (3599905029 / 100000 - 1537 / 10000000) - 360 * of_int k
         \<le> js_rem (357.52911 + T * (35999.05029 - T * 0.0001537)) 360"
    unfolding e using x by linarith
  show "js_rem (357.52911 + T * (35999.05029 - T * 0.0001537)) 360
         \<le> 35752911 / 100000 + Th * (3599905029 / 100000) - 360 * of_int k"
    unfolding e using x by linarith
qed

lemma centre_term_any:
  fixes c1 :: real
  assumes "19097 / 10000 \<le> c1" "c1 \<le> 1914602 / 1000000"
  shows "\<bar>c1 * sinDeg M\<bar> \<le> 1914602 / 1000000"
proof -
  have "\<bar>c1\<bar> \<le> 1914602 / 1000000" using assms by (simp add: abs_le_iff)
  then have "\<bar>c1 * sinDeg M\<bar> \<le> 1914602 / 1000000 * 1" by (intro abs_mult_bound) simp_all
  then show ?thesis by simp
qed

lemma declination_range:
  "- 90 \<le> asinDeg (sinDeg e * sinDeg l) \<and> asinDeg (sinDeg e * sinDeg l) \<le> 90"
proof -
  have "\<bar>sinDeg e * sinDeg l\<bar> \<le> 1 * 1" by (intro abs_mult_bound) simp_all
  then show ?thesis unfolding asinDeg_def by (intro toDegrees_arcsin_range) simp
qed

lemma declination_north:
  assumes eps: "2342 / 100 \<le> eps" "eps \<le> 2345 / 100" and lam: "84 \<le> lam" "lam \<le> 96"
  shows "23 \<le> asinDeg (sinDeg eps * sinDeg lam)"
proof -
  have e: "3973 / 10000 \<le> sinDeg eps" using sinDeg_obliquity(1)[OF eps] .
  have l: "994 / 1000 \<le> sinDeg lam" using sinDeg_near_90[OF lam] .
  have "(3973 / 10000) * (994 / 1000) \<le> sinDeg eps * sinDeg lam"
    using e l by (intro mult_mono) simp_all
  then have "sinDeg 23 \<le> sinDeg eps * sinDeg lam" using sinDeg_23 by simp
  moreover have "\<bar>sinDeg eps * sinDeg lam\<bar> \<le> 1 * 1" by (intro abs_mult_bound) simp_all
  ultimately show ?thesis by (intro asinDeg_ge) (simp_all add: abs_le_iff)
qed

lemma declination_south:
  assumes eps: "2342 / 100 \<le> eps" "eps \<le> 2345 / 100" and lam: "264 \<le> lam" "lam \<le> 276"
  shows "asinDeg (sinDeg eps * sinDeg lam) \<le> - 23"
proof -
  have e: "3973 / 10000 \<le> sinDeg eps" using sinDeg_obliquity(1)[OF eps] .
  have "994 / 1000 \<le> sinDeg (360 - lam)" using lam by (intro sinDeg_near_90) simp_all
  then have l: "994 / 1000 \<le> - sinDeg lam" by (simp add: sinDeg_explement)
  have "(3973 / 10000) * (994 / 1000) \<le> sinDeg eps * (- sinDeg lam)"
    using e l by (intro mult_mono) simp_all
  then have "sinDeg eps * sinDeg lam \<le> - sinDeg 23" using sinDeg_23 by simp
  then have "sinDeg eps * sinDeg lam \<le> sinDeg (- 23)" by simp
  moreover have "\<bar>sinDeg eps * sinDeg lam\<bar> \<le> 1 * 1" by (intro abs_mult_bound) simp_all
  ultimately show ?thesis by (intro asinDeg_le) (simp_all add: abs_le_iff)
qed

text \<open>Shortly before the March equinox the longitude is a few degrees short of 360.\<close>

lemma declination_before_equinox:
  fixes a b dl dh :: real
  defines "xl \<equiv> a * (3141 / 180000)" and "xh \<equiv> b * (3142 / 180000)"
    and "yl \<equiv> dl * (3141 / 180000)" and "yh \<equiv> dh * (3142 / 180000)"
  assumes eps: "2342 / 100 \<le> eps" "eps \<le> 2345 / 100"
    and lam: "a \<le> 360 - lam" "360 - lam \<le> b" "0 \<le> a" "b \<le> 89"
    and d: "0 \<le> dl" "dl \<le> 89" "0 \<le> dh" "dh \<le> 89"
    and lo: "yh - yh ^ 3 / 6 + yh ^ 5 / 120 + yh ^ 7 / 5040
             \<le> (3973 / 10000) * (xl - xl ^ 3 / 6 + xl ^ 5 / 120 - xl ^ 7 / 5040)"
    and hi: "(3981 / 10000) * (xh - xh ^ 3 / 6 + xh ^ 5 / 120 + xh ^ 7 / 5040)
             \<le> yl - yl ^ 3 / 6 + yl ^ 5 / 120 - yl ^ 7 / 5040"
    and pos: "0 \<le> xl - xl ^ 3 / 6 + xl ^ 5 / 120 - xl ^ 7 / 5040"
  shows "- dl \<le> asinDeg (sinDeg eps * sinDeg lam)"
    and "asinDeg (sinDeg eps * sinDeg lam) \<le> - dh"
proof -
  define u where "u = 360 - lam"
  define pl where "pl = xl - xl ^ 3 / 6 + xl ^ 5 / 120 - xl ^ 7 / 5040"
  define ph where "ph = xh - xh ^ 3 / 6 + xh ^ 5 / 120 + xh ^ 7 / 5040"
  have e: "3973 / 10000 \<le> sinDeg eps" "sinDeg eps \<le> 3981 / 10000"
    using sinDeg_obliquity[OF eps] by simp_all
  have u: "pl \<le> sinDeg u" "sinDeg u \<le> ph"
    unfolding pl_def ph_def xl_def xh_def u_def using lam
    by (intro sinDeg_between; simp)+
  have pl0: "0 \<le> pl" using pos by (simp add: pl_def)
  have s: "sinDeg eps * sinDeg lam = - (sinDeg eps * sinDeg u)"
    using sinDeg_explement[of u] by (simp add: u_def)
  have p1: "(3973 / 10000) * pl \<le> sinDeg eps * sinDeg u"
    using e u pl0 by (intro mult_mono) simp_all
  have "0 \<le> sinDeg u" using u pl0 by linarith
  then have p2: "sinDeg eps * sinDeg u \<le> (3981 / 10000) * ph"
    using e u by (intro mult_mono) simp_all
  have r: "\<bar>sinDeg eps * sinDeg lam\<bar> \<le> 1 * 1" by (intro abs_mult_bound) simp_all
  have "sinDeg dl \<ge> yl - yl ^ 3 / 6 + yl ^ 5 / 120 - yl ^ 7 / 5040"
    unfolding yl_def using d by (intro sinDeg_between(1)[of dl dl dl]) simp_all
  then have "sinDeg eps * sinDeg u \<le> sinDeg dl" using p2 hi by (simp add: ph_def)
  then have "sinDeg (- dl) \<le> sinDeg eps * sinDeg lam" unfolding s by simp
  then show "- dl \<le> asinDeg (sinDeg eps * sinDeg lam)"
    using d r by (intro asinDeg_ge) (simp_all add: abs_le_iff)
  have "sinDeg dh \<le> yh - yh ^ 3 / 6 + yh ^ 5 / 120 + yh ^ 7 / 5040"
    unfolding yh_def using d by (intro sinDeg_between(2)[of dh dh dh]) simp_all
  then have "sinDeg dh \<le> sinDeg eps * sinDeg u" using p1 lo by (simp add: pl_def)
  then have "sinDeg eps * sinDeg lam \<le> sinDeg (- dh)" unfolding s by simp
  then show "asinDeg (sinDeg eps * sinDeg lam) \<le> - dh"
    using d r by (intro asinDeg_le) (simp_all add: abs_le_iff)
qed

lemma declination_june:
  assumes "(19895 - 1) * msPerDay \<le> t" "t < (19895 + 2) * msPerDay"
  shows "23 \<le> declination (getSolarCoordinates (getJulianDay t))"
    and "declination (getSolarCoordinates (getJulianDay t)) \<le> 90"
proof -
  define T where "T = getJulianCentury (getJulianDay t)"
  have T: "2446 / 10000 \<le> T" "T \<le> 2448 / 10000"
    using julian_century_june[OF assms] by (simp_all add: T_def)
  then have T01: "0 \<le> T" "T \<le> 1" by linarith+
  define L0 where "L0 = js_rem (280.46646 + T * (36000.76983 + T * 0.0003032)) 360"
  define M where "M = js_rem (357.52911 + T * (35999.05029 - T * 0.0001537)) 360"
  obtain c1 r eps where c1: "19097 / 10000 \<le> c1" "c1 \<le> 1914602 / 1000000"
    and r: "\<bar>r\<bar> \<le> 31 / 1000" and eps: "2342 / 100 \<le> eps" "eps \<le> 2345 / 100"
    and dec: "declination (getSolarCoordinates (getJulianDay t))
       = asinDeg (sinDeg eps * sinDeg (L0 + c1 * sinDeg M + r))"
    using declination_form[of "getJulianDay t"] T01 unfolding T_def L0_def M_def by blast
  have L0: "86 \<le> L0" "L0 \<le> 94"
    using mean_longitude_between[of "2446 / 10000" T "2448 / 10000" 25] T
    by (simp_all add: L0_def)
  have cm: "\<bar>c1 * sinDeg M\<bar> \<le> 1914602 / 1000000" using c1 by (rule centre_term_any)
  have lam: "84 \<le> L0 + c1 * sinDeg M + r" "L0 + c1 * sinDeg M + r \<le> 96"
    using L0 cm r by linarith+
  show "23 \<le> declination (getSolarCoordinates (getJulianDay t))"
    unfolding dec using eps lam by (rule declination_north)
  show "declination (getSolarCoordinates (getJulianDay t)) \<le> 90"
    unfolding dec using declination_range by blast
qed

lemma declination_december:
  assumes "(20078 - 1) * msPerDay \<le> t" "t < (20078 + 2) * msPerDay"
  shows "declination (getSolarCoordinates (getJulianDay t)) \<le> - 23"
    and "- 90 \<le> declination (getSolarCoordinates (getJulianDay t))"
proof -
  define T where "T = getJulianCentury (getJulianDay t)"
  have T: "2496 / 10000 \<le> T" "T \<le> 2498 / 10000"
    using julian_century_december[OF assms] by (simp_all add: T_def)
  then have T01: "0 \<le> T" "T \<le> 1" by linarith+
  define L0 where "L0 = js_rem (280.46646 + T * (36000.76983 + T * 0.0003032)) 360"
  define M where "M = js_rem (357.52911 + T * (35999.05029 - T * 0.0001537)) 360"
  obtain c1 r eps where c1: "19097 / 10000 \<le> c1" "c1 \<le> 1914602 / 1000000"
    and r: "\<bar>r\<bar> \<le> 31 / 1000" and eps: "2342 / 100 \<le> eps" "eps \<le> 2345 / 100"
    and dec: "declination (getSolarCoordinates (getJulianDay t))
       = asinDeg (sinDeg eps * sinDeg (L0 + c1 * sinDeg M + r))"
    using declination_form[of "getJulianDay t"] T01 unfolding T_def L0_def M_def by blast
  have L0: "266 \<le> L0" "L0 \<le> 274"
    using mean_longitude_between[of "2496 / 10000" T "2498 / 10000" 25] T
    by (simp_all add: L0_def)
  have cm: "\<bar>c1 * sinDeg M\<bar> \<le> 1914602 / 1000000" using c1 by (rule centre_term_any)
  have lam: "264 \<le> L0 + c1 * sinDeg M + r" "L0 + c1 * sinDeg M + r \<le> 276"
    using L0 cm r by linarith+
  show "declination (getSolarCoordinates (getJulianDay t)) \<le> - 23"
    unfolding dec using eps lam by (rule declination_south)
  show "- 90 \<le> declination (getSolarCoordinates (getJulianDay t))"
    unfolding dec using declination_range by blast
qed

lemma centre_term_march:
  fixes c1 M :: real
  assumes c1: "19097 / 10000 \<le> c1" "c1 \<le> 1914602 / 1000000" and M: "71 \<le> M" "M \<le> 73"
  shows "(19097 / 10000) * (94 / 100) \<le> c1 * sinDeg M"
    and "c1 * sinDeg M \<le> (1914602 / 1000000) * (96 / 100)"
proof -
  have s: "94 / 100 \<le> sinDeg M" "sinDeg M \<le> 96 / 100"
    using sinDeg_between[of 71 M 73] M by (simp_all add: power_divide)
  show "(19097 / 10000) * (94 / 100) \<le> c1 * sinDeg M"
    using c1 s by (intro mult_mono) simp_all
  show "c1 * sinDeg M \<le> (1914602 / 1000000) * (96 / 100)"
    using c1 s by (intro mult_mono) simp_all
qed

text \<open>
  The longitude of the sun within an hour of 2024-03-17, from bounds on the Julian century.
\<close>

lemma longitude_march:
  fixes jd Tl Th :: real
  defines "T \<equiv> getJulianCentury jd"
  assumes T: "Tl \<le> T" "T \<le> Th" "24206 / 100000 \<le> Tl" "Th \<le> 24209 / 100000"
  shows "\<exists>lam eps. 2342 / 100 \<le> eps \<and> eps \<le> 2345 / 100
     \<and> declination (getSolarCoordinates jd) = asinDeg (sinDeg eps * sinDeg lam)
     \<and> 28046646 / 100000 + Tl * (3600076983 / 100000) - 8640 + 1764 / 1000 \<le> lam
     \<and> lam \<le> 28046646 / 100000 + Th * (3600076983 / 100000 + 3032 / 10000000) - 8640 + 187 / 100"
proof -
  have T01: "0 \<le> T" "T \<le> 1" "0 \<le> Tl" "Th \<le> 1" using T by linarith+
  define L0 where "L0 = js_rem (280.46646 + T * (36000.76983 + T * 0.0003032)) 360"
  define M where "M = js_rem (357.52911 + T * (35999.05029 - T * 0.0001537)) 360"
  obtain c1 r eps where c1: "19097 / 10000 \<le> c1" "c1 \<le> 1914602 / 1000000"
    and r: "\<bar>r\<bar> \<le> 31 / 1000" and eps: "2342 / 100 \<le> eps" "eps \<le> 2345 / 100"
    and dec: "declination (getSolarCoordinates jd)
       = asinDeg (sinDeg eps * sinDeg (L0 + c1 * sinDeg M + r))"
    using declination_form[of jd] T01 unfolding T_def L0_def M_def by blast
  have a1: "360 * of_int 24 \<le> 28046646 / 100000 + Tl * (3600076983 / 100000)"
    and a2: "28046646 / 100000 + Th * (3600076983 / 100000 + 3032 / 10000000) < 360 * of_int 24 + 360"
    using T by simp_all
  have L0: "28046646 / 100000 + Tl * (3600076983 / 100000) - 8640 \<le> L0"
    "L0 \<le> 28046646 / 100000 + Th * (3600076983 / 100000 + 3032 / 10000000) - 8640"
    using mean_longitude_between[of Tl T Th 24, OF T01(3) T(1,2) T01(4) a1 a2]
    by (simp_all add: L0_def)
  have b1: "360 * of_int 25 \<le> 35752911 / 100000 + Tl * (3599905029 / 100000 - 1537 / 10000000)"
    and b2: "35752911 / 100000 + Th * (3599905029 / 100000) < 360 * of_int 25 + 360"
    using T by simp_all
  have "35752911 / 100000 + Tl * (3599905029 / 100000 - 1537 / 10000000) - 360 * of_int 25 \<le> M"
    "M \<le> 35752911 / 100000 + Th * (3599905029 / 100000) - 360 * of_int 25"
    using mean_anomaly_between[of Tl T Th 25, OF T01(3) T(1,2) T01(4) b1 b2]
    by (simp_all add: M_def)
  then have M: "71 \<le> M" "M \<le> 73" using T by simp_all
  have cm: "(19097 / 10000) * (94 / 100) \<le> c1 * sinDeg M"
    "c1 * sinDeg M \<le> (1914602 / 1000000) * (96 / 100)"
    using centre_term_march[OF c1 M] by simp_all
  have "28046646 / 100000 + Tl * (3600076983 / 100000) - 8640 + 1764 / 1000 \<le> L0 + c1 * sinDeg M + r"
    using L0 cm r by linarith
  moreover have "L0 + c1 * sinDeg M + r
      \<le> 28046646 / 100000 + Th * (3600076983 / 100000 + 3032 / 10000000) - 8640 + 187 / 100"
    using L0 cm r by linarith
  ultimately show ?thesis using eps dec by blast
qed

lemma julian_century_between:
  assumes "jl \<le> jd" "jd \<le> jh"
  shows "(jl - 2451545) / 36525 \<le> getJulianCentury jd"
    and "getJulianCentury jd \<le> (jh - 2451545) / 36525"
  using assms by (simp_all add: getJulianCentury_def divide_right_mono)

lemma declination_march_noon:
  assumes "19799 * msPerDay + 0 * 3600000 \<le> t" "t < 19799 * msPerDay + (0 + 1) * 3600000"
  shows "declination (getSolarCoordinates (getJulianDay t)) \<le> - (116 / 100)"
    and "- 90 \<le> declination (getSolarCoordinates (getJulianDay t))"
proof -
  define T where "T = getJulianCentury (getJulianDay t)"
  have "2460387 + (of_int 0 - 12) / 24 \<le> getJulianDay t"
    "getJulianDay t \<le> 2460387 + (of_int 0 - 12) / 24 + 1 / 24"
    using julian_day_march[OF assms] by simp_all
  then have "(2460387 + (of_int 0 - 12) / 24 - 2451545) / 36525 \<le> T"
    "T \<le> (2460387 + (of_int 0 - 12) / 24 + 1 / 24 - 2451545) / 36525"
    unfolding T_def by (rule julian_century_between)+
  then have T: "24206707 / 100000000 \<le> T" "T \<le> 24206822 / 100000000" by simp_all
  obtain lam eps where eps: "2342 / 100 \<le> eps" "eps \<le> 2345 / 100"
    and dec: "declination (getSolarCoordinates (getJulianDay t)) = asinDeg (sinDeg eps * sinDeg lam)"
    and "28046646 / 100000 + (24206707 / 100000000) * (3600076983 / 100000) - 8640 + 1764 / 1000 \<le> lam"
    and "lam \<le> 28046646 / 100000 + (24206822 / 100000000) * (3600076983 / 100000 + 3032 / 10000000)
          - 8640 + 187 / 100"
    using longitude_march[of "24206707 / 100000000" "getJulianDay t" "24206822 / 100000000"] T
    unfolding T_def by auto
  then have lam: "302 / 100 \<le> 360 - lam" "360 - lam \<le> 317 / 100" by simp_all
  show "declination (getSolarCoordinates (getJulianDay t)) \<le> - (116 / 100)"
    unfolding dec using eps lam
    by (intro declination_before_equinox(2)[where a = "302 / 100" and b = "317 / 100"
          and dl = 89 and dh = "116 / 100"])
      (simp_all add: power_divide)
  show "- 90 \<le> declination (getSolarCoordinates (getJulianDay t))"
    unfolding dec using declination_range by blast
qed

lemma declination_march_midnight:
  assumes "19799 * msPerDay + 12 * 3600000 \<le> t" "t < 19799 * msPerDay + (12 + 1) * 3600000"
  shows "- (110 / 100) \<le> declination (getSolarCoordinates (getJulianDay t))"
    and "declination (getSolarCoordinates (getJulianDay t)) \<le> - (60 / 100)"
proof -
  define T where "T = getJulianCentury (getJulianDay t)"
  have "2460387 + (of_int 12 - 12) / 24 \<le> getJulianDay t"
    "getJulianDay t \<le> 2460387 + (of_int 12 - 12) / 24 + 1 / 24"
    using julian_day_march[OF assms] by simp_all
  then have "(2460387 + (of_int 12 - 12) / 24 - 2451545) / 36525 \<le> T"
    "T \<le> (2460387 + (of_int 12 - 12) / 24 + 1 / 24 - 2451545) / 36525"
    unfolding T_def by (rule julian_century_between)+
  then have T: "24208076 / 100000000 \<le> T" "T \<le> 24208192 / 100000000" by simp_all
  obtain lam eps where eps: "2342 / 100 \<le> eps" "eps \<le> 2345 / 100"
    and dec: "declination (getSolarCoordinates (getJulianDay t)) = asinDeg (sinDeg eps * sinDeg lam)"
    and "28046646 / 100000 + (24208076 / 100000000) * (3600076983 / 100000) - 8640 + 1764 / 1000 \<le> lam"
    and "lam \<le> 28046646 / 100000 + (24208192 / 100000000) * (3600076983 / 100000 + 3032 / 10000000)
          - 8640 + 187 / 100"
    using longitude_march[of "24208076 / 100000000" "getJulianDay t" "24208192 / 100000000"] T
    unfolding T_def by auto
  then have lam: "252 / 100 \<le> 360 - lam" "360 - lam \<le> 268 / 100" by simp_all
  show "- (110 / 100) \<le> declination (getSolarCoordinates (getJulianDay t))"
    unfolding dec using eps lam
    by (intro declination_before_equinox(1)[where a = "252 / 100" and b = "268 / 100"
          and dl = "110 / 100" and dh = "60 / 100"])
      (simp_all add: power_divide)
  show "declination (getSolarCoordinates (getJulianDay t)) \<le> - (60 / 100)"
    unfolding dec using eps lam
    by (intro declination_before_equinox(2)[where a = "252 / 100" and b = "268 / 100"
          and dl = "110 / 100" and dh = "60 / 100"])
      (simp_all add: power_divide)
qed

section \<open>The altitude of the sun from its declination\<close>

lemma altitude_form:
  "\<exists>H. altitude (calculateSunPosition la lo t)
     = asinDeg (sinDeg la * sinDeg (declination (getSolarCoordinates (getJulianDay t)))
           + cosDeg la * cosDeg (declination (getSolarCoordinates (getJulianDay t))) * cos H)
       + getRefractionCorrection
           (asinDeg (sinDeg la * sinDeg (declination (getSolarCoordinates (getJulianDay t)))
             + cosDeg la * cosDeg (declination (getSolarCoordinates (getJulianDay t))) * cos H))"
  by (simp add: calculateSunPosition_def Let_def asinDeg_def sinDeg_def cosDeg_def) blast

lemma sinDeg_90 [simp]: "sinDeg 90 = 1"
  by (simp add: sinDeg_def toRadians_def)

lemma cosDeg_90 [simp]: "cosDeg 90 = 0"
  by (simp add: cosDeg_def toRadians_def)

text \<open>At the North Pole the geometric altitude is the declination, at every hour angle.\<close>

lemma altitude_pole:
  assumes "- 90 \<le> declination (getSolarCoordinates (getJulianDay t))"
    "declination (getSolarCoordinates (getJulianDay t)) \<le> 90"
  shows "altitude (calculateSunPosition 90 lo t)
     = declination (getSolarCoordinates (getJulianDay t))
       + getRefractionCorrection (declination (getSolarCoordinates (getJulianDay t)))"
  using altitude_form[of 90 lo t] assms by (auto simp: asinDeg_sinDeg)

text \<open>
  At other latitudes the geometric altitude stays within the colatitude of the declination.
\<close>

lemma geometric_altitude_lower:
  assumes la: "- 90 \<le> la" "la \<le> 90" and d: "- 90 \<le> d" "d \<le> 90" and s: "0 \<le> la + d"
  shows "la + d - 90 \<le> asinDeg (sinDeg la * sinDeg d + cosDeg la * cosDeg d * cos H)"
proof -
  have c: "0 \<le> cosDeg la * cosDeg d"
    unfolding cosDeg_def using cos_lat_nonneg[of la] cos_lat_nonneg[of d] la d by simp
  have "toRadians (la + d - 90) = (toRadians la + toRadians d) - pi / 2"
    by (simp add: toRadians_def add_divide_distrib diff_divide_distrib algebra_simps)
  then have "sinDeg (la + d - 90) = - cos (toRadians la + toRadians d)"
    unfolding sinDeg_def by (simp add: sin_diff)
  then have e: "sinDeg (la + d - 90) = sinDeg la * sinDeg d - cosDeg la * cosDeg d"
    by (simp add: cos_add sinDeg_def cosDeg_def)
  have "(cosDeg la * cosDeg d) * (- 1) \<le> (cosDeg la * cosDeg d) * cos H"
    using c by (intro mult_left_mono) simp_all
  then have "sinDeg (la + d - 90) \<le> sinDeg la * sinDeg d + cosDeg la * cosDeg d * cos H"
    unfolding e by simp
  moreover have "\<bar>sinDeg la * sinDeg d + cosDeg la * cosDeg d * cos H\<bar> \<le> 1"
    unfolding sinDeg_def cosDeg_def by (rule sinAlt_bounds)
  ultimately show ?thesis using la d s by (intro asinDeg_ge) (simp_all add: abs_le_iff)
qed

lemma geometric_altitude_upper:
  assumes la: "- 90 \<le> la" "la \<le> 90" and d: "- 90 \<le> d" "d \<le> 90" and s: "d \<le> la"
  shows "asinDeg (sinDeg la * sinDeg d + cosDeg la * cosDeg d * cos H) \<le> 90 - la + d"
proof -
  have c: "0 \<le> cosDeg la * cosDeg d"
    unfolding cosDeg_def using cos_lat_nonneg[of la] cos_lat_nonneg[of d] la d by simp
  have "toRadians (90 - la + d) = pi / 2 - (toRadians la - toRadians d)"
    by (simp add: toRadians_def add_divide_distrib diff_divide_distrib algebra_simps)
  then have "sinDeg (90 - la + d) = cos (toRadians la - toRadians d)"
    unfolding sinDeg_def by (simp add: sin_diff)
  then have e: "sinDeg (90 - la + d) = sinDeg la * sinDeg d + cosDeg la * cosDeg d"
    by (simp add: cos_diff sinDeg_def cosDeg_def)
  have "(cosDeg la * cosDeg d) * cos H \<le> (cosDeg la * cosDeg d) * 1"
    using c by (intro mult_left_mono) simp_all
  then have "sinDeg la * sinDeg d + cosDeg la * cosDeg d * cos H \<le> sinDeg (90 - la + d)"
    unfolding e by simp
  moreover have "\<bar>sinDeg la * sinDeg d + cosDeg la * cosDeg d * cos H\<bar> \<le> 1"
    unfolding sinDeg_def cosDeg_def by (rule sinAlt_bounds)
  ultimately show ?thesis using la d s by (intro asinDeg_le) (simp_all add: abs_le_iff)
qed

section \<open>Refraction just below the horizon\<close>

lemma tan_upper:
  fixes c x q :: real
  assumes x: "0 \<le> x" "x \<le> c" "c < pi / 2" and q: "0 < q" "q \<le> cos c"
  shows "tan x \<le> c / q"
proof -
  have "tan x \<le> tan c" using x pi_gt_zero by (intro tan_mono_le) linarith+
  also have "tan c = sin c / cos c" by (simp add: tan_def)
  also have "\<dots> \<le> c / cos c"
    using x q sin_x_le_x[of c] by (intro divide_right_mono) simp_all
  also have "\<dots> \<le> c / q" using x q by (intro divide_left_mono) simp_all
  finally show ?thesis .
qed

lemma refraction_deep:
  assumes a: "- 90 \<le> a" "a \<le> - (116 / 100)"
  shows "a + getRefractionCorrection a < - (833 / 1000)"
proof (cases "a = - 90")
  case True
  have "toRadians (- 90) = - (pi / 2)" by (simp add: toRadians_def)
  then have "tanDeg (- 90) = tan (- (pi / 2))" by (simp only: tanDeg_def)
  then have "tanDeg (- 90) = 0" by (simp only: tan_minus tan_pi_half)
  then show ?thesis using True by (simp add: getRefractionCorrection_def)
next
  case False
  define t where "t = tan (toRadians (- a))"
  have "(116 / 100) * (3141 / 180000) \<le> (- a) * (3141 / 180000)"
    using a by (intro mult_right_mono) simp_all
  then have x1: "(116 / 100) * (3141 / 180000) \<le> toRadians (- a)"
    using toRadians_between(1)[of "- a"] a by linarith
  have x2: "toRadians (- a) < pi / 2"
    using toRadians_range_strict[of "- a"] a False by simp
  define c :: real where "c = (116 / 100) * (3141 / 180000)"
  have "c - c ^ 3 / 6 - c ^ 4 / 24 \<le> t"
    unfolding t_def c_def using x1 x2 by (intro tan_lower) simp_all
  moreover have "202 / 10000 \<le> c - c ^ 3 / 6 - c ^ 4 / 24"
    by (simp add: c_def power_divide)
  ultimately have t: "202 / 10000 \<le> t" by linarith
  have "tanDeg a = - t" by (simp add: tanDeg_def t_def)
  define v where "v = (10387 / 500) / t"
  have cr: "getRefractionCorrection a = v / 3600"
    using a \<open>tanDeg a = - t\<close> by (simp add: getRefractionCorrection_def v_def)
  have "(10387 / 500) / t \<le> (10387 / 500) / (202 / 10000)"
    using t by (intro divide_left_mono) simp_all
  then have "v \<le> 1080" by (simp add: v_def)
  then show ?thesis unfolding cr using a by linarith
qed

lemma refraction_shallow:
  assumes a: "- (110 / 100) \<le> a" "a \<le> - (60 / 100)"
  shows "- (833 / 1000) < a + getRefractionCorrection a"
proof -
  define t where "t = tan (toRadians (- a))"
  define c :: real where "c = (110 / 100) * (3142 / 180000)"
  have "(- a) * (3142 / 180000) \<le> (110 / 100) * (3142 / 180000)"
    using a by (intro mult_right_mono) simp_all
  then have x1: "toRadians (- a) \<le> c"
    unfolding c_def using toRadians_between(2)[of "- a"] a by linarith
  have x0: "0 < toRadians (- a)" using toRadians_between(1)[of "- a"] a by linarith
  have c1: "c < pi / 2" using pi_ge_two by (simp add: c_def)
  have "1 - c\<^sup>2 / 2 + c ^ 4 / 24 - c ^ 6 / 720 - \<bar>c\<bar> ^ 8 / 40320 \<le> cos c"
    by (rule cos_bounds_8)
  moreover have "9998 / 10000 \<le> 1 - c\<^sup>2 / 2 + c ^ 4 / 24 - c ^ 6 / 720 - \<bar>c\<bar> ^ 8 / 40320"
    by (simp add: c_def power_divide)
  ultimately have q: "9998 / 10000 \<le> cos c" by linarith
  have "t \<le> c / (9998 / 10000)"
    unfolding t_def using x0 x1 c1 q by (intro tan_upper) simp_all
  then have t: "t \<le> 1923 / 100000" by (simp add: c_def)
  have "toRadians (- a) < pi / 2" using x1 c1 by linarith
  then have tp: "0 < t" unfolding t_def using x0 by (intro tan_gt_zero)
  have "tanDeg a = - t" by (simp add: tanDeg_def t_def)
  define v where "v = (10387 / 500) / t"
  have cr: "getRefractionCorrection a = v / 3600"
    using a \<open>tanDeg a = - t\<close> by (simp add: getRefractionCorrection_def v_def)
  have "(10387 / 500) / (1923 / 100000) \<le> (10387 / 500) / t"
    using t tp by (intro divide_left_mono) simp_all
  then have "1080 \<le> v" by (simp add: v_def)
  then show ?thesis unfolding cr using a by linarith
qed

section \<open>Permanent day and permanent night\<close>

lemma calculateDaylightInfo_flags:
  "isAlwaysDay (calculateDaylightInfo la lo date)
     = (altitude (calculateSunPosition la lo (calculateSolarMidnight la lo date))
          > SUNRISE_SUNSET_ALTITUDE)"
  "isAlwaysNight (calculateDaylightInfo la lo date)
     = (altitude (calculateSunPosition la lo (calculateSolarNoon la lo date))
          < SUNRISE_SUNSET_ALTITUDE)"
  by (simp_all add: calculateDaylightInfo_def Let_def)

lemma calculateDaylightInfo_day:
  assumes "isAlwaysDay (calculateDaylightInfo la lo date)"
  shows "dayLength (calculateDaylightInfo la lo date) = 24"
    and "nightLength (calculateDaylightInfo la lo date) = 0"
    and "sunriseTime (calculateDaylightInfo la lo date) = None"
    and "sunsetTime (calculateDaylightInfo la lo date) = None"
  using assms by (simp_all add: calculateDaylightInfo_def Let_def)

lemma calculateDaylightInfo_night:
  assumes "isAlwaysNight (calculateDaylightInfo la lo date)"
    and "\<not> isAlwaysDay (calculateDaylightInfo la lo date)"
  shows "dayLength (calculateDaylightInfo la lo date) = 0"
    and "sunriseTime (calculateDaylightInfo la lo date) = None"
    and "sunsetTime (calculateDaylightInfo la lo date) = None"
  using assms by (simp_all add: calculateDaylightInfo_def Let_def)

lemma refraction_high:
  assumes "3 \<le> a" "a \<le> 90"
  shows "- (833 / 1000) < a + getRefractionCorrection a"
proof -
  consider "85 < a" | "5 < a" "a \<le> 85" | "a \<le> 5" by linarith
  then show ?thesis
  proof cases
    case 1
    then show ?thesis by (simp add: getRefractionCorrection_def)
  next
    case 2
    then show ?thesis using refraction_mid[of a] by linarith
  next
    case 3
    then show ?thesis using refraction_low[of a] assms by linarith
  qed
qed

text \<open>
  At latitude 70 degrees north the sun is above the threshold at every instant of the
  three days around 2024-06-21.
\<close>

lemma summer_sun_70N:
  assumes w: "(19895 - 1) * msPerDay \<le> t" "t < (19895 + 2) * msPerDay"
  shows "- (833 / 1000) < altitude (calculateSunPosition 70 lo t)"
proof -
  define d where "d = declination (getSolarCoordinates (getJulianDay t))"
  have d: "23 \<le> d" "d \<le> 90" unfolding d_def using declination_june[OF w] by simp_all
  obtain H where H: "altitude (calculateSunPosition 70 lo t)
      = asinDeg (sinDeg 70 * sinDeg d + cosDeg 70 * cosDeg d * cos H)
        + getRefractionCorrection (asinDeg (sinDeg 70 * sinDeg d + cosDeg 70 * cosDeg d * cos H))"
    using altitude_form[of 70 lo t] unfolding d_def by blast
  define a where "a = asinDeg (sinDeg 70 * sinDeg d + cosDeg 70 * cosDeg d * cos H)"
  have "70 + d - 90 \<le> a" unfolding a_def using d by (intro geometric_altitude_lower) simp_all
  moreover have "\<bar>sin (toRadians 70) * sin (toRadians d) + cos (toRadians 70) * cos (toRadians d) * cos H\<bar> \<le> 1"
    by (rule sinAlt_bounds)
  then have "a \<le> 90"
    unfolding a_def asinDeg_def sinDeg_def cosDeg_def using toDegrees_arcsin_range by blast
  ultimately have "- (833 / 1000) < a + getRefractionCorrection a"
    using d by (intro refraction_high) linarith+
  then show ?thesis using H by (simp add: a_def)
qed

text \<open>
  Latitude 70 degrees north on 2024-06-21 (12:00 UTC), at any longitude: the sun stays
  above the threshold at solar midnight.
\<close>

lemma midnight_sun_70N:
  assumes lo: "- 180 \<le> lo" "lo \<le> 180"
  shows "- (833 / 1000) < altitude (calculateSunPosition 70 lo (calculateSolarMidnight 70 lo 1718971200000))"
proof -
  have date: "(1718971200000 :: int) = 19895 * msPerDay + 43200000" by (simp add: msPerDay_def)
  have "(19895 - 1) * msPerDay \<le> calculateSolarMidnight 70 lo 1718971200000"
    "calculateSolarMidnight 70 lo 1718971200000 < (19895 + 2) * msPerDay"
    using calculateSolarNoon_window(3,4)[OF date lo] by simp_all
  then show ?thesis by (rule summer_sun_70N)
qed

text \<open>
  The same latitude on 2024-12-21 (12:00 UTC): the sun stays below the threshold, at solar
  noon as at solar midnight.
\<close>

lemma winter_sun_70N:
  assumes w: "(20078 - 1) * msPerDay \<le> t" "t < (20078 + 2) * msPerDay"
  shows "altitude (calculateSunPosition 70 lo t) < - (833 / 1000)"
proof -
  define d where "d = declination (getSolarCoordinates (getJulianDay t))"
  have d: "d \<le> - 23" "- 90 \<le> d" unfolding d_def using declination_december[OF w] by simp_all
  obtain H where H: "altitude (calculateSunPosition 70 lo t)
      = asinDeg (sinDeg 70 * sinDeg d + cosDeg 70 * cosDeg d * cos H)
        + getRefractionCorrection (asinDeg (sinDeg 70 * sinDeg d + cosDeg 70 * cosDeg d * cos H))"
    using altitude_form[of 70 lo t] unfolding d_def by blast
  define a where "a = asinDeg (sinDeg 70 * sinDeg d + cosDeg 70 * cosDeg d * cos H)"
  have "a \<le> 90 - 70 + d" unfolding a_def using d by (intro geometric_altitude_upper) simp_all
  then have a: "a \<le> - 3" using d by linarith
  have "\<bar>sin (toRadians 70) * sin (toRadians d) + cos (toRadians 70) * cos (toRadians d) * cos H\<bar> \<le> 1"
    by (rule sinAlt_bounds)
  then have "- 90 \<le> a"
    unfolding a_def asinDeg_def sinDeg_def cosDeg_def using toDegrees_arcsin_range by blast
  then have "getRefractionCorrection a \<le> 1" using refraction_below[of a] a by simp
  then show ?thesis using H a by (simp add: a_def)
qed

lemma calculateDaylightInfo_june_70N:
  assumes lo: "- 180 \<le> lo" "lo \<le> 180"
  shows "isAlwaysDay (calculateDaylightInfo 70 lo 1718971200000)"
    and "dayLength (calculateDaylightInfo 70 lo 1718971200000) = 24"
    and "sunriseTime (calculateDaylightInfo 70 lo 1718971200000) = None"
    and "sunsetTime (calculateDaylightInfo 70 lo 1718971200000) = None"
proof -
  show 1: "isAlwaysDay (calculateDaylightInfo 70 lo 1718971200000)"
    unfolding calculateDaylightInfo_flags SUNRISE_SUNSET_ALTITUDE_def
    using midnight_sun_70N[OF lo] by simp
  show "dayLength (calculateDaylightInfo 70 lo 1718971200000) = 24"
    and "sunriseTime (calculateDaylightInfo 70 lo 1718971200000) = None"
    and "sunsetTime (calculateDaylightInfo 70 lo 1718971200000) = None"
    using calculateDaylightInfo_day[OF 1] by simp_all
qed

lemma calculateDaylightInfo_december_70N:
  assumes lo: "- 180 \<le> lo" "lo \<le> 180"
  shows "isAlwaysNight (calculateDaylightInfo 70 lo 1734782400000)"
    and "\<not> isAlwaysDay (calculateDaylightInfo 70 lo 1734782400000)"
    and "dayLength (calculateDaylightInfo 70 lo 1734782400000) = 0"
proof -
  have date: "(1734782400000 :: int) = 20078 * msPerDay + 43200000" by (simp add: msPerDay_def)
  have n: "altitude (calculateSunPosition 70 lo (calculateSolarNoon 70 lo 1734782400000)) < - (833 / 1000)"
    using calculateSolarNoon_window(1,2)[OF date lo] by (intro winter_sun_70N) simp_all
  have m: "altitude (calculateSunPosition 70 lo (calculateSolarMidnight 70 lo 1734782400000)) < - (833 / 1000)"
    using calculateSolarNoon_window(3,4)[OF date lo] by (intro winter_sun_70N) simp_all
  show 1: "isAlwaysNight (calculateDaylightInfo 70 lo 1734782400000)"
    unfolding calculateDaylightInfo_flags SUNRISE_SUNSET_ALTITUDE_def using n by simp
  show 2: "\<not> isAlwaysDay (calculateDaylightInfo 70 lo 1734782400000)"
    unfolding calculateDaylightInfo_flags SUNRISE_SUNSET_ALTITUDE_def using m by simp
  show "dayLength (calculateDaylightInfo 70 lo 1734782400000) = 0"
    using calculateDaylightInfo_night(1)[OF 1 2] .
qed

section \<open>The North Pole shortly before the equinox\<close>

lemma solar_noon_pole:
  "19799 * msPerDay + 0 * 3600000 \<le> calculateSolarNoon la (345 / 2) 1710676800000"
  "calculateSolarNoon la (345 / 2) 1710676800000 < 19799 * msPerDay + (0 + 1) * 3600000"
proof -
  have date: "(1710676800000 :: int) = 19799 * msPerDay + 43200000" by (simp add: msPerDay_def)
  obtain e where e: "\<bar>e\<bar> \<le> 7 / 20"
    and n: "calculateSolarNoon la (345 / 2) 1710676800000
           = 19799 * msPerDay + \<lfloor>12 - (345 / 2) / 15 + e\<rfloor> * 3600000
             + trunc (js_rem (12 - (345 / 2) / 15 + e) 1 * 60) * 60000"
    using calculateSolarNoon_eq[OF date] by blast
  define x where "x = 12 - (345 / 2) / 15 + e"
  have x: "3 / 20 \<le> x" "x \<le> 17 / 20" using e by (simp_all add: x_def abs_le_iff)
  have f: "\<lfloor>x\<rfloor> = 0" using x by (simp add: floor_eq_iff)
  have "trunc (x / 1) = 0" using x f by (simp add: trunc_def)
  then have r: "js_rem x 1 = x" by (simp add: js_rem_def)
  define mm where "mm = trunc (js_rem x 1 * 60)"
  have "of_int 9 \<le> x * 60" "x * 60 \<le> of_int 51" using x by simp_all
  then have m: "9 \<le> mm" "mm \<le> 51"
    unfolding mm_def r using trunc_between[of 9 "x * 60" 51] by simp_all
  have n': "calculateSolarNoon la (345 / 2) 1710676800000 = 19799 * msPerDay + mm * 60000"
    using n unfolding x_def[symmetric] mm_def[symmetric] f by simp
  show "19799 * msPerDay + 0 * 3600000 \<le> calculateSolarNoon la (345 / 2) 1710676800000"
    unfolding n' using m by simp
  show "calculateSolarNoon la (345 / 2) 1710676800000 < 19799 * msPerDay + (0 + 1) * 3600000"
    unfolding n' using m by simp
qed

lemma solar_midnight_pole:
  "19799 * msPerDay + 12 * 3600000 \<le> calculateSolarMidnight la (345 / 2) 1710676800000"
  "calculateSolarMidnight la (345 / 2) 1710676800000 < 19799 * msPerDay + (12 + 1) * 3600000"
  unfolding calculateSolarMidnight_eq using solar_noon_pole[of la] by simp_all

lemma noon_altitude_pole:
  "altitude (calculateSunPosition 90 (345 / 2) (calculateSolarNoon 90 (345 / 2) 1710676800000))
   < - (833 / 1000)"
proof -
  define t where "t = calculateSolarNoon 90 (345 / 2) 1710676800000"
  define d where "d = declination (getSolarCoordinates (getJulianDay t))"
  have d: "d \<le> - (116 / 100)" "- 90 \<le> d"
    unfolding d_def t_def using declination_march_noon[OF solar_noon_pole] by simp_all
  then have "altitude (calculateSunPosition 90 (345 / 2) t) = d + getRefractionCorrection d"
    unfolding d_def by (intro altitude_pole) simp_all
  then show ?thesis unfolding t_def[symmetric] using refraction_deep[of d] d by simp
qed

lemma midnight_altitude_pole:
  "- (833 / 1000)
   < altitude (calculateSunPosition 90 (345 / 2) (calculateSolarMidnight 90 (345 / 2) 1710676800000))"
proof -
  define t where "t = calculateSolarMidnight 90 (345 / 2) 1710676800000"
  define d where "d = declination (getSolarCoordinates (getJulianDay t))"
  have d: "- (110 / 100) \<le> d" "d \<le> - (60 / 100)"
    unfolding d_def t_def using declination_march_midnight[OF solar_midnight_pole] by simp_all
  then have "altitude (calculateSunPosition 90 (345 / 2) t) = d + getRefractionCorrection d"
    unfolding d_def by (intro altitude_pole) simp_all
  then show ?thesis unfolding t_def[symmetric] using refraction_shallow[of d] d by simp
qed

text \<open>
  C6: for every location and date \<open>calculateDaylightInfo\<close> is to report permanent day exactly
  when the altitude at solar midnight exceeds the threshold of -0.833 degrees, with a day
  length of 24 and no sunrise or sunset, and permanent night exactly when the altitude at
  solar noon is below the threshold, with a day length of 0. The two flags are computed
  as stated, and at 70 degrees north the solstices of 2024 come out as permanent day and
  permanent night (\<open>calculateDaylightInfo_june_70N\<close>, \<open>calculateDaylightInfo_december_70N\<close>).
  But the flags are not exclusive and the day length looks at permanent day first. At the
  North Pole, longitude 172.5, on 2024-03-17T12:00Z solar noon falls between 00:00 and
  01:00 UTC and solar midnight twelve hours later; the sun climbs through the day, its
  altitude is below the threshold at noon and above it at midnight, and the result has
  both flags set, permanent night with a day length of 24 and a night length of 0.
\<close>

theorem calculateDaylightInfo_pole_both_flags:
  "isAlwaysNight (calculateDaylightInfo 90 172.5 1710676800000) \<and>
   isAlwaysDay (calculateDaylightInfo 90 172.5 1710676800000) \<and>
   dayLength (calculateDaylightInfo 90 172.5 1710676800000) = 24 \<and>
   nightLength (calculateDaylightInfo 90 172.5 1710676800000) = 0"
proof -
  have lo: "(172.5 :: real) = 345 / 2" by simp
  have n: "isAlwaysNight (calculateDaylightInfo 90 (345 / 2) 1710676800000)"
    unfolding calculateDaylightInfo_flags SUNRISE_SUNSET_ALTITUDE_def
    using noon_altitude_pole by simp
  have d: "isAlwaysDay (calculateDaylightInfo 90 (345 / 2) 1710676800000)"
    unfolding calculateDaylightInfo_flags SUNRISE_SUNSET_ALTITUDE_def
    using midnight_altitude_pole by simp
  show ?thesis unfolding lo using n d calculateDaylightInfo_day(1,2)[OF d] by simp
qed

lemma bisectLoop_step:
  assumes "i < MAX_ITERATIONS" "\<not> high - low < PRECISION_MS"
  shows "bisectLoop la lo target dir i low high =
     bisectLoop la lo target dir (i + 1) (fst (bisectionStep la lo target dir (low, high)))
       (snd (bisectionStep la lo target dir (low, high)))"
  using assms
  by (subst bisectLoop.simps) (simp add: Let_def bisectionStep_def beforeEvent_def)

text \<open>A property that every round keeps holds of the state the loop ends in.\<close>

lemma bisectLoop_invariant:
  assumes P: "P i low high"
    and step: "\<And>j l h. j < MAX_ITERATIONS \<Longrightarrow> \<not> h - l < PRECISION_MS \<Longrightarrow> P j l h \<Longrightarrow>
       P (j + 1) (fst (bisectionStep la lo target dir (l, h)))
         (snd (bisectionStep la lo target dir (l, h)))"
  shows "\<exists>i' low' high'. bisectLoop la lo target dir i low high = (i', low', high') \<and>
     P i' low' high' \<and> (i' < MAX_ITERATIONS \<longrightarrow> high' - low' < PRECISION_MS) \<and>
     (i \<le> MAX_ITERATIONS \<longrightarrow> i' \<le> MAX_ITERATIONS)"
  using P
proof (induction "MAX_ITERATIONS - i" arbitrary: i low high rule: less_induct)
  case less
  show ?case
  proof (cases "i < MAX_ITERATIONS")
    case False
    then show ?thesis using less.prems by (simp add: bisectLoop_end)
  next
    case True
    show ?thesis
    proof (cases "high - low < PRECISION_MS")
      case close: True
      then show ?thesis using True less.prems by (simp add: bisectLoop_break)
    next
      case False
      define l1 where "l1 = fst (bisectionStep la lo target dir (low, high))"
      define h1 where "h1 = snd (bisectionStep la lo target dir (low, high))"
      have r: "bisectLoop la lo target dir i low high = bisectLoop la lo target dir (i + 1) l1 h1"
        unfolding l1_def h1_def using True False by (rule bisectLoop_step)
      have p1: "P (i + 1) l1 h1" unfolding l1_def h1_def using True False less.prems by (rule step)
      have "MAX_ITERATIONS - (i + 1) < MAX_ITERATIONS - i" using True by simp
      from less.hyps[OF this p1]
      obtain i' low' high' where IH:
        "bisectLoop la lo target dir (i + 1) l1 h1 = (i', low', high')"
        "P i' low' high'" "i' < MAX_ITERATIONS \<longrightarrow> high' - low' < PRECISION_MS"
        "i + 1 \<le> MAX_ITERATIONS \<longrightarrow> i' \<le> MAX_ITERATIONS"
        by blast
      show ?thesis using r IH True by auto
    qed
  qed
qed

lemma bisectionStep_cases:
  "bisectionStep la lo target dir (l, h) = (newDate ((of_int l + of_int h) / 2), h) \<and>
     beforeEvent dir (altitude (calculateSunPosition la lo (newDate ((of_int l + of_int h) / 2)))) target
   \<or> bisectionStep la lo target dir (l, h) = (l, newDate ((of_int l + of_int h) / 2)) \<and>
     \<not> beforeEvent dir (altitude (calculateSunPosition la lo (newDate ((of_int l + of_int h) / 2)))) target"
  by (simp add: bisectionStep_def Let_def)

text \<open>The midpoint splits a window of width \<open>w\<close> into parts of width at most \<open>(w + 1) / 2\<close>.\<close>

lemma midpoint_halves:
  fixes l h :: int
  assumes "l \<le> h"
  shows "2 * (newDate ((of_int l + of_int h) / 2) - l) \<le> h - l + 1"
    and "2 * (h - newDate ((of_int l + of_int h) / 2)) \<le> h - l + 1"
proof -
  have e: "(of_int l + of_int h) / 2 = (of_int (l + h) :: real) / of_int 2" by simp
  have f: "\<lfloor>(of_int l + of_int h) / (2 :: real)\<rfloor> = (l + h) div 2"
    unfolding e by (simp only: floor_divide_of_int_eq)
  have c: "\<lceil>(of_int l + of_int h) / (2 :: real)\<rceil> = - ((- (l + h)) div 2)"
    unfolding e by (simp only: ceiling_divide_eq_div)
  have m: "newDate ((of_int l + of_int h) / 2) = (l + h) div 2
      \<or> newDate ((of_int l + of_int h) / 2) = - ((- (l + h)) div 2)"
    unfolding newDate_def trunc_def using f c by auto
  have "2 * ((l + h) div 2) \<le> l + h" "l + h \<le> 2 * ((l + h) div 2) + 1" by presburger+
  moreover have "l + h \<le> 2 * (- ((- (l + h)) div 2))" "2 * (- ((- (l + h)) div 2)) \<le> l + h + 1"
    by presburger+
  ultimately show "2 * (newDate ((of_int l + of_int h) / 2) - l) \<le> h - l + 1"
    and "2 * (h - newDate ((of_int l + of_int h) / 2)) \<le> h - l + 1"
    using m by auto
qed

lemma bisectionStep_window:
  assumes "l \<le> h"
  shows "l \<le> fst (bisectionStep la lo target dir (l, h))"
    and "fst (bisectionStep la lo target dir (l, h)) \<le> snd (bisectionStep la lo target dir (l, h))"
    and "snd (bisectionStep la lo target dir (l, h)) \<le> h"
    and "2 * (snd (bisectionStep la lo target dir (l, h)) - fst (bisectionStep la lo target dir (l, h)))
         \<le> h - l + 1"
  using bisectionStep_cases[of la lo target dir l h] midpoint_between[OF assms]
    midpoint_halves[OF assms]
  by auto

lemma bisectLoop_run:
  fixes low0 high0 :: int and la lo target :: real and dir :: Direction
  obtains i low' high' where
    "bisectLoop la lo target dir 0 low0 high0 = (i, low', high')"
    "i \<le> MAX_ITERATIONS" "i < MAX_ITERATIONS \<longrightarrow> high' - low' < PRECISION_MS"
    "(low', high') = (bisectionStep la lo target dir ^^ i) (low0, high0)"
    "\<forall>j<i. \<not> snd ((bisectionStep la lo target dir ^^ j) (low0, high0))
              - fst ((bisectionStep la lo target dir ^^ j) (low0, high0)) < PRECISION_MS"
    "0 < i \<longrightarrow> PRECISION_MS \<le> high0 - low0"
    "low0 \<le> high0 \<longrightarrow> low0 \<le> low' \<and> low' \<le> high' \<and> high' \<le> high0 \<and>
        (high' - low') * 2 ^ i < high0 - low0 + 2 ^ i"
    "low' \<noteq> low0 \<longrightarrow> beforeEvent dir (altitude (calculateSunPosition la lo low')) target"
    "high' \<noteq> high0 \<longrightarrow> \<not> beforeEvent dir (altitude (calculateSunPosition la lo high')) target"
proof -
  define step where "step = bisectionStep la lo target dir"
  define P where "P = (\<lambda>i l h.
     (l, h) = (step ^^ i) (low0, high0) \<and>
     (\<forall>j<i. \<not> snd ((step ^^ j) (low0, high0)) - fst ((step ^^ j) (low0, high0)) < PRECISION_MS) \<and>
     (0 < i \<longrightarrow> PRECISION_MS \<le> high0 - low0) \<and>
     (low0 \<le> high0 \<longrightarrow> low0 \<le> l \<and> l \<le> h \<and> h \<le> high0 \<and>
        (h - l) * 2 ^ i < high0 - low0 + 2 ^ i) \<and>
     (l \<noteq> low0 \<longrightarrow> beforeEvent dir (altitude (calculateSunPosition la lo l)) target) \<and>
     (h \<noteq> high0 \<longrightarrow> \<not> beforeEvent dir (altitude (calculateSunPosition la lo h)) target))"
  have P0: "P 0 low0 high0" by (simp add: P_def)
  have Pstep: "P (j + 1) (fst (step (l, h))) (snd (step (l, h)))"
    if j: "j < MAX_ITERATIONS" and wide: "\<not> h - l < PRECISION_MS" and p: "P j l h" for j l h
  proof -
    have it: "(l, h) = (step ^^ j) (low0, high0)" using p by (simp add: P_def)
    have lh: "l \<le> h" using wide by (simp add: PRECISION_MS_def)
    have 1: "(fst (step (l, h)), snd (step (l, h))) = (step ^^ (j + 1)) (low0, high0)"
      using it by simp
    have 2: "\<forall>k<j + 1. \<not> snd ((step ^^ k) (low0, high0)) - fst ((step ^^ k) (low0, high0))
        < PRECISION_MS"
    proof (intro allI impI)
      fix k assume "k < j + 1"
      then consider "k < j" | "k = j" by linarith
      then show "\<not> snd ((step ^^ k) (low0, high0)) - fst ((step ^^ k) (low0, high0)) < PRECISION_MS"
      proof cases
        case 1
        then show ?thesis using p by (simp add: P_def)
      next
        case 2
        then show ?thesis using wide it[symmetric] by simp
      qed
    qed
    have 3: "PRECISION_MS \<le> high0 - low0"
    proof (cases "j = 0")
      case True
      then show ?thesis using it wide by simp
    next
      case False
      then show ?thesis using p by (simp add: P_def)
    qed
    have w: "l \<le> fst (step (l, h))" "fst (step (l, h)) \<le> snd (step (l, h))"
      "snd (step (l, h)) \<le> h" "2 * (snd (step (l, h)) - fst (step (l, h))) \<le> h - l + 1"
      unfolding step_def using bisectionStep_window[OF lh] by simp_all
    have 4: "low0 \<le> fst (step (l, h)) \<and> fst (step (l, h)) \<le> snd (step (l, h))
        \<and> snd (step (l, h)) \<le> high0
        \<and> (snd (step (l, h)) - fst (step (l, h))) * 2 ^ (j + 1) < high0 - low0 + 2 ^ (j + 1)"
      if le: "low0 \<le> high0"
    proof -
      have q: "low0 \<le> l" "h \<le> high0" "(h - l) * 2 ^ j < high0 - low0 + 2 ^ j"
        using p le by (simp_all add: P_def)
      have "(snd (step (l, h)) - fst (step (l, h))) * 2 ^ (j + 1)
          = (2 * (snd (step (l, h)) - fst (step (l, h)))) * 2 ^ j" by simp
      also have "\<dots> \<le> (h - l + 1) * 2 ^ j" using w(4) by (intro mult_right_mono) simp_all
      also have "\<dots> = (h - l) * 2 ^ j + 2 ^ j" by (simp add: distrib_right)
      also have "\<dots> < high0 - low0 + 2 ^ j + 2 ^ j" using q(3) by simp
      finally have "(snd (step (l, h)) - fst (step (l, h))) * 2 ^ (j + 1)
          < high0 - low0 + 2 ^ (j + 1)" by simp
      then show ?thesis using w q by simp
    qed
    have 5: "(fst (step (l, h)) \<noteq> low0 \<longrightarrow>
          beforeEvent dir (altitude (calculateSunPosition la lo (fst (step (l, h))))) target) \<and>
        (snd (step (l, h)) \<noteq> high0 \<longrightarrow>
          \<not> beforeEvent dir (altitude (calculateSunPosition la lo (snd (step (l, h))))) target)"
      using bisectionStep_cases[of la lo target dir l h] p unfolding step_def P_def by auto
    show ?thesis unfolding P_def using 1 2 3 4 5 by simp
  qed
  from bisectLoop_invariant[of P 0 low0 high0 la lo target dir, OF P0]
  obtain i low' high' where r:
    "bisectLoop la lo target dir 0 low0 high0 = (i, low', high')" "P i low' high'"
    "i < MAX_ITERATIONS \<longrightarrow> high' - low' < PRECISION_MS" "i \<le> MAX_ITERATIONS"
    using Pstep unfolding step_def by auto
  show thesis
    by (rule that[of i low' high']) (use r in \<open>simp_all add: P_def step_def\<close>)
qed

text \<open>
  C7: \<open>findSunEvent\<close> bisects on the solar altitude. It starts from the window from
  00:00:00.000 UTC of the date to solar noon for a rise, and from solar noon to
  23:59:59.999 UTC of the date for a set. The state it ends in is reached by \<open>i \<le> 20\<close>
  rounds of \<open>bisectionStep\<close>, each on a window not yet narrower than 10000 ms: a round takes
  the altitude of \<open>calculateSunPosition\<close> at the midpoint and moves the lower end there when
  the midpoint lies before the event (altitude below the target for a rise, above it for
  a set), the upper end otherwise. So a window that is not empty is halved in every round
  (up to the rounding of the midpoint) and stays inside the starting window, an end that
  has moved has the altitude on its side of the target, and the loop stops before the
  twentieth round only on a window narrower than 10000 ms; a starting window of up to
  \<open>9999 * 2 ^ 20\<close> ms always ends narrower than that. In every case the function returns
  the upper end of the window as it then stands, never \<open>null\<close>.
\<close>

theorem findSunEvent_bisection:
  assumes w: "searchWindow date noon dir = (low0, high0)"
  shows "\<exists>i low' high'.
     bisectLoop la lo target dir 0 low0 high0 = (i, low', high') \<and>
     findSunEvent la lo date noon target dir = Some high' \<and>
     i \<le> 20 \<and> (i < 20 \<longrightarrow> high' - low' < 10000) \<and>
     (low', high') = (bisectionStep la lo target dir ^^ i) (low0, high0) \<and>
     (\<forall>j<i. \<not> snd ((bisectionStep la lo target dir ^^ j) (low0, high0))
                - fst ((bisectionStep la lo target dir ^^ j) (low0, high0)) < 10000) \<and>
     (low0 \<le> high0 \<longrightarrow> low0 \<le> low' \<and> low' \<le> high' \<and> high' \<le> high0 \<and>
        (high' - low') * 2 ^ i < high0 - low0 + 2 ^ i) \<and>
     (high0 - low0 \<le> 9999 * 2 ^ 20 \<longrightarrow> high' - low' < 10000) \<and>
     (low' \<noteq> low0 \<longrightarrow> beforeEvent dir (altitude (calculateSunPosition la lo low')) target) \<and>
     (high' \<noteq> high0 \<longrightarrow> \<not> beforeEvent dir (altitude (calculateSunPosition la lo high')) target) \<and>
     searchWindow date noon Rise = (Day date * msPerDay, noon) \<and>
     searchWindow date noon Set = (noon, Day date * msPerDay + 86399999)"
proof -
  obtain i low' high' where r:
    "bisectLoop la lo target dir 0 low0 high0 = (i, low', high')"
    "i \<le> MAX_ITERATIONS" "i < MAX_ITERATIONS \<longrightarrow> high' - low' < PRECISION_MS"
    "(low', high') = (bisectionStep la lo target dir ^^ i) (low0, high0)"
    "\<forall>j<i. \<not> snd ((bisectionStep la lo target dir ^^ j) (low0, high0))
                - fst ((bisectionStep la lo target dir ^^ j) (low0, high0)) < PRECISION_MS"
    "0 < i \<longrightarrow> PRECISION_MS \<le> high0 - low0"
    "low0 \<le> high0 \<longrightarrow> low0 \<le> low' \<and> low' \<le> high' \<and> high' \<le> high0 \<and>
        (high' - low') * 2 ^ i < high0 - low0 + 2 ^ i"
    "low' \<noteq> low0 \<longrightarrow> beforeEvent dir (altitude (calculateSunPosition la lo low')) target"
    "high' \<noteq> high0 \<longrightarrow> \<not> beforeEvent dir (altitude (calculateSunPosition la lo high')) target"
    by (rule bisectLoop_run)
  have f: "findSunEvent la lo date noon target dir = Some high'"
    using r(1) w by (simp add: findSunEvent_def)
  have narrow: "high' - low' < 10000" if small: "high0 - low0 \<le> 9999 * 2 ^ 20"
  proof (cases "i < MAX_ITERATIONS")
    case True
    then show ?thesis using r(3) by (simp add: PRECISION_MS_def)
  next
    case False
    then have i: "i = 20" using r(2) by (simp add: MAX_ITERATIONS_def)
    then have "low0 \<le> high0" using r(6) by (simp add: PRECISION_MS_def)
    then have "(high' - low') * 2 ^ 20 < high0 - low0 + 2 ^ 20" using r(7) i by simp
    then have "(high' - low') * 2 ^ 20 < 10000 * 2 ^ 20" using small by simp
    then show ?thesis by simp
  qed
  show ?thesis
    by (rule exI[of _ i], rule exI[of _ low'], rule exI[of _ high'])
      (use r f narrow searchWindow_eq[of date noon] in
        \<open>simp add: MAX_ITERATIONS_def PRECISION_MS_def\<close>)
qed

text \<open>A round of the rise search there: the midpoint is after the event, the upper end moves.\<close>

lemma rise_round_summer:
  assumes "i < 20" "10000 \<le> high - low" "1718841600000 \<le> low" "high < 1719100800000"
  shows "bisectLoop 70 lo (- (833 / 1000)) Rise i low high
     = bisectLoop 70 lo (- (833 / 1000)) Rise (i + 1) low ((low + high) div 2)"
proof -
  have e: "(of_int low + of_int high) / 2 = (of_int (low + high) :: real) / of_int 2" by simp
  have "0 \<le> (of_int low + of_int high) / (2 :: real)" using assms by simp
  then have m: "newDate ((of_int low + of_int high) / 2) = (low + high) div 2"
    unfolding newDate_def trunc_def e by (simp only: floor_divide_of_int_eq if_True)
  have "low \<le> (low + high) div 2" "(low + high) div 2 \<le> high" using assms by linarith+
  then have "(19895 - 1) * msPerDay \<le> (low + high) div 2" "(low + high) div 2 < (19895 + 2) * msPerDay"
    using assms by (simp_all add: msPerDay_def)
  then have "- (833 / 1000) < altitude (calculateSunPosition 70 lo ((low + high) div 2))"
    by (rule summer_sun_70N)
  then have "bisectionStep 70 lo (- (833 / 1000)) Rise (low, high) = (low, (low + high) div 2)"
    by (simp add: bisectionStep_def beforeEvent_def m Let_def)
  moreover have "i < MAX_ITERATIONS" "\<not> high - low < PRECISION_MS"
    using assms by (simp_all add: MAX_ITERATIONS_def PRECISION_MS_def)
  ultimately show ?thesis using bisectLoop_step[of i high low 70 lo "- (833 / 1000)" Rise] by simp
qed

lemma rise_search_summer:
  "bisectLoop 70 0 (- (833 / 1000)) Rise 0 1718928000000 1718971200000
     = (13, 1718928000000, 1718928005273)"
proof -
  have "bisectLoop 70 0 (- (833 / 1000)) Rise 0 1718928000000 1718971200000
      = bisectLoop 70 0 (- (833 / 1000)) Rise (Suc (Suc (Suc (Suc (Suc (Suc (Suc (Suc (Suc (Suc
          (Suc (Suc (Suc 0))))))))))))) 1718928000000 1718928005273"
    by (simp add: rise_round_summer)
  also have "\<dots> = (Suc (Suc (Suc (Suc (Suc (Suc (Suc (Suc (Suc (Suc (Suc (Suc (Suc 0)))))))))))),
      1718928000000, 1718928005273)"
    by (intro bisectLoop_break) (simp_all add: MAX_ITERATIONS_def PRECISION_MS_def)
  finally show ?thesis by (simp add: eval_nat_numeral)
qed

theorem findSunEvent_bisection_witness:
  "searchWindow 1718971200000 1718971200000 Rise = (1718928000000, 1718971200000) \<and>
   bisectLoop 70 0 (- 0.833) Rise 0 1718928000000 1718971200000
     = (13, 1718928000000, 1718928005273) \<and>
   findSunEvent 70 0 1718971200000 1718971200000 (- 0.833) Rise = Some 1718928005273 \<and>
   (13 :: nat) < 20 \<and> (1718928005273 :: int) - 1718928000000 < 10000 \<and>
   (1718928000000, 1718928005273)
     = (bisectionStep 70 0 (- 0.833) Rise ^^ 13) (1718928000000, 1718971200000) \<and>
   (1718928000000 :: int) \<le> 1718971200000 \<and>
   ((1718928005273 :: int) - 1718928000000) * 2 ^ 13 < 1718971200000 - 1718928000000 + 2 ^ 13 \<and>
   (1718928005273 :: int) \<noteq> 1718971200000 \<and>
   \<not> beforeEvent Rise (altitude (calculateSunPosition 70 0 1718928005273)) (- 0.833)"
proof -
  have t: "(- 0.833 :: real) = - (833 / 1000)" by simp
  have w: "searchWindow 1718971200000 1718971200000 Rise = (1718928000000, 1718971200000)"
    by (simp add: searchWindow_eq Day_def msPerDay_def)
  have b: "bisectLoop 70 0 (- 0.833) Rise 0 1718928000000 1718971200000
      = (13, 1718928000000, 1718928005273)"
    unfolding t by (rule rise_search_summer)
  from findSunEvent_bisection[OF w, of 70 0 "- 0.833"]
  obtain i low' high' where r:
    "bisectLoop 70 0 (- 0.833) Rise 0 1718928000000 1718971200000 = (i, low', high')"
    "findSunEvent 70 0 1718971200000 1718971200000 (- 0.833) Rise = Some high'"
    "(low', high') = (bisectionStep 70 0 (- 0.833) Rise ^^ i) (1718928000000, 1718971200000)"
    "high' \<noteq> 1718971200000 \<longrightarrow>
       \<not> beforeEvent Rise (altitude (calculateSunPosition 70 0 high')) (- 0.833)"
    by blast
  have i: "i = 13" "low' = 1718928000000" "high' = 1718928005273" using r(1) b by simp_all
  show ?thesis using w b r(2,3,4) unfolding i by simp
qed

section \<open>Routes of at most 20000 km\<close>







section \<open>The time slice of the flight analysis\<close>





end
